theory Spec2Isabelle
  imports Complex_Main "HOL-Library.Sublist" "HOL-Library.Multiset"
begin

section \<open>Values exchanged with the client\<close>

text \<open>
  The repository is an Express server, \<^verbatim>\<open>server.js\<close>, present in two variants: the first
  one only sends mail, the second one also keeps the submissions in a MongoDB collection and
  offers the administrative routes.  Both are embedded here; a definition that exists in both
  carries the suffix \<open>_v1\<close> or \<open>_v2\<close>.

  A JavaScript string is a sequence of UTF-16 code units, and \<^verbatim>\<open>.length\<close> counts code units.
  A \<^typ>\<open>string\<close> below is such a sequence, one \<^typ>\<open>char\<close> per code unit; the texts
  it covers are those whose code units are all below 256.
\<close>

datatype json =
    JNull
  | JBool bool
  | JNum int
  | JStr string
  | JDate nat
  | JArr "json list"
  | JObj "(string \<times> json) list"

text \<open>\<^verbatim>\<open>res.status(n).json(v)\<close>; \<^verbatim>\<open>res.json(v)\<close> is status 200.\<close>

record response =
  status_code :: nat
  payload :: json

text \<open>
  \<^verbatim>\<open>req.body\<close> after the body parser: each field is a string, or absent (\<open>None\<close>).
\<close>

record body =
  body_name :: "string option"
  body_email :: "string option"
  body_message :: "string option"
  body_status :: "string option"

section \<open>Regular expressions\<close>

text \<open>
  The syntax of the patterns the source uses, and \<^verbatim>\<open>RegExp.prototype.test\<close> on a pattern
  anchored with \<^verbatim>\<open>^\<close> and \<^verbatim>\<open>$\<close> (no flags, so \<^verbatim>\<open>$\<close> is the end of the input and
  \<^verbatim>\<open>\w\<close> is \<^verbatim>\<open>[A-Za-z0-9_]\<close>): whether the whole string matches.  The search is done
  with derivatives; \<open>cat\<close> and \<open>alt\<close> drop the dead branches.
\<close>

datatype charclass = WordChar | Letter | Lit char | AnyOf "char list"

definition is_word :: "char \<Rightarrow> bool" where
  "is_word c = (let n = (of_char c :: nat) in
     (48 \<le> n \<and> n \<le> 57) \<or> (65 \<le> n \<and> n \<le> 90) \<or> n = 95 \<or> (97 \<le> n \<and> n \<le> 122))"

definition is_letter :: "char \<Rightarrow> bool" where
  "is_letter c = (let n = (of_char c :: nat) in
     (65 \<le> n \<and> n \<le> 90) \<or> (97 \<le> n \<and> n \<le> 122))"

fun in_class :: "charclass \<Rightarrow> char \<Rightarrow> bool" where
  "in_class WordChar c = is_word c"
| "in_class Letter c = is_letter c"
| "in_class (Lit d) c = (c = d)"
| "in_class (AnyOf ds) c = (c \<in> set ds)"

datatype regex = Fail | Eps | Ch charclass | Cat regex regex | Or regex regex | Many regex

text \<open>\<^verbatim>\<open>r+\<close>, \<^verbatim>\<open>r?\<close> and \<^verbatim>\<open>r{2,3}\<close>.\<close>

definition some :: "regex \<Rightarrow> regex" where
  "some r = Cat r (Many r)"

definition maybe :: "regex \<Rightarrow> regex" where
  "maybe r = Or r Eps"

definition two_or_three :: "regex \<Rightarrow> regex" where
  "two_or_three r = Cat r (Cat r (maybe r))"

fun nullable :: "regex \<Rightarrow> bool" where
  "nullable Fail = False"
| "nullable Eps = True"
| "nullable (Ch k) = False"
| "nullable (Cat r s) = (nullable r \<and> nullable s)"
| "nullable (Or r s) = (nullable r \<or> nullable s)"
| "nullable (Many r) = True"

fun cat :: "regex \<Rightarrow> regex \<Rightarrow> regex" where
  "cat Fail s = Fail"
| "cat Eps s = s"
| "cat r s = Cat r s"

fun alt :: "regex \<Rightarrow> regex \<Rightarrow> regex" where
  "alt Fail s = s"
| "alt r Fail = r"
| "alt r s = Or r s"

fun deriv :: "char \<Rightarrow> regex \<Rightarrow> regex" where
  "deriv c Fail = Fail"
| "deriv c Eps = Fail"
| "deriv c (Ch k) = (if in_class k c then Eps else Fail)"
| "deriv c (Cat r s) =
     (if nullable r then alt (cat (deriv c r) s) (deriv c s) else cat (deriv c r) s)"
| "deriv c (Or r s) = alt (deriv c r) (deriv c s)"
| "deriv c (Many r) = cat (deriv c r) (Many r)"

definition regex_test :: "regex \<Rightarrow> string \<Rightarrow> bool" where
  "regex_test r s = nullable (foldl (\<lambda>q c. deriv c q) r s)"

text \<open>
  \<^verbatim>\<open>/^\w+([.-]?\w+)*@\w+([.-]?\w+)*(\.\w{2,3})+$/\<close>, the same pattern in both validators and
  in the schema.
\<close>

definition emailRegex :: regex where
  "emailRegex =
     Cat (some (Ch WordChar))
    (Cat (Many (Cat (maybe (Ch (AnyOf ''.-''))) (some (Ch WordChar))))
    (Cat (Ch (Lit (CHR ''@'')))
    (Cat (some (Ch WordChar))
    (Cat (Many (Cat (maybe (Ch (AnyOf ''.-''))) (some (Ch WordChar))))
         (some (Cat (Ch (Lit (CHR ''.''))) (two_or_three (Ch WordChar))))))))"

section \<open>The validation middleware\<close>

text \<open>
  \<^verbatim>\<open>validateContactInput\<close> answers (\<open>Some\<close> response) or calls \<^verbatim>\<open>next()\<close> (\<open>None\<close>).
  \<^verbatim>\<open>!name\<close> holds for an absent field and for the empty string.
\<close>

definition falsy :: "string option \<Rightarrow> bool" where
  "falsy v = (case v of None \<Rightarrow> True | Some s \<Rightarrow> s = [])"

definition str :: "string option \<Rightarrow> string" where
  "str v = (case v of None \<Rightarrow> [] | Some s \<Rightarrow> s)"

definition fail_json :: "string \<Rightarrow> json" where
  "fail_json msg = JObj [(''success'', JBool False), (''message'', JStr msg)]"

definition validateContactInput_v1 :: "body \<Rightarrow> response option" where
  "validateContactInput_v1 b =
     (let name = body_name b; email = body_email b; message = body_message b in
      if falsy name \<or> falsy email \<or> falsy message then
        Some \<lparr>status_code = 400, payload = fail_json ''All fields are required''\<rparr>
      else if length (str name) > 100 \<or> length (str message) > 1000 then
        Some \<lparr>status_code = 400, payload = fail_json ''Input too long''\<rparr>
      else if \<not> regex_test emailRegex (str email) then
        Some \<lparr>status_code = 400, payload = fail_json ''Invalid email address''\<rparr>
      else None)"

definition validateContactInput_v2 :: "body \<Rightarrow> response option" where
  "validateContactInput_v2 b =
     (let name = body_name b; email = body_email b; message = body_message b in
      if falsy name \<or> falsy email \<or> falsy message then
        Some \<lparr>status_code = 400, payload = fail_json ''All fields are required''\<rparr>
      else if length (str name) > 100 then
        Some \<lparr>status_code = 400, payload = fail_json ''Name cannot exceed 100 characters''\<rparr>
      else if length (str message) > 1000 then
        Some \<lparr>status_code = 400, payload = fail_json ''Message cannot exceed 1000 characters''\<rparr>
      else if \<not> regex_test emailRegex (str email) then
        Some \<lparr>status_code = 400, payload = fail_json ''Please provide a valid email address''\<rparr>
      else None)"

section \<open>The contact schema and the collection\<close>

datatype status = Unread | Read | Replied

definition status_name :: "status \<Rightarrow> string" where
  "status_name s = (case s of Unread \<Rightarrow> ''unread'' | Read \<Rightarrow> ''read'' | Replied \<Rightarrow> ''replied'')"

text \<open>\<^verbatim>\<open>["unread", "read", "replied"].includes(status)\<close>, with the value it names.\<close>

definition parse_status :: "string option \<Rightarrow> status option" where
  "parse_status v =
     (if v = Some ''unread'' then Some Unread
      else if v = Some ''read'' then Some Read
      else if v = Some ''replied'' then Some Replied
      else None)"

text \<open>A stored document; \<open>oid\<close> is its \<^verbatim>\<open>_id\<close>, \<open>createdAt\<close> is in milliseconds.\<close>

record contact =
  oid :: string
  name :: string
  email :: string
  message :: string
  ipAddress :: string
  userAgent :: string
  createdAt :: nat
  status :: status

text \<open>
  The options of \<^verbatim>\<open>transporter.sendMail\<close> that tell the messages apart: the sender (display
  name and address), the recipient and the subject.  The bodies are left out.
\<close>

record mail =
  mail_from :: "string \<times> string"
  mail_to :: string
  mail_subject :: string

text \<open>
  What the handlers get from outside during one request: the clock, the identifier that
  \<^verbatim>\<open>new Contact\<close> draws, whether the database rejects the call (it is down, or the id
  it is given is malformed), what the mail transport answers to a message (\<open>None\<close>:
  delivered, \<open>Some m\<close>: rejected with \<^verbatim>\<open>err.message = m\<close>), and
  \<^verbatim>\<open>process.env.OWNER_EMAIL\<close>.
\<close>

record env =
  now :: nat
  fresh_id :: string
  store_fails :: bool
  transport :: "mail \<Rightarrow> string option"
  OWNER_EMAIL :: string

text \<open>The schema's setters \<^verbatim>\<open>trim: true\<close> and \<^verbatim>\<open>lowercase: true\<close>.\<close>

definition is_space :: "char \<Rightarrow> bool" where
  "is_space c = ((of_char c :: nat) \<in> {9, 10, 11, 12, 13, 32, 160})"

definition trim :: "string \<Rightarrow> string" where
  "trim s = rev (dropWhile is_space (rev (dropWhile is_space s)))"

definition to_lower :: "char \<Rightarrow> char" where
  "to_lower c = (let n = (of_char c :: nat) in
     if (65 \<le> n \<and> n \<le> 90) \<or> (192 \<le> n \<and> n \<le> 222 \<and> n \<noteq> 215) then char_of (n + 32) else c)"

definition lowercase :: "string \<Rightarrow> string" where
  "lowercase s = map to_lower s"

text \<open>
  \<^verbatim>\<open>new Contact({name, email, message, ipAddress, userAgent})\<close>: the setters run, and the
  defaults of \<^verbatim>\<open>createdAt\<close> (\<^verbatim>\<open>Date.now\<close>) and \<^verbatim>\<open>status\<close> (\<^verbatim>\<open>"unread"\<close>) are filled in.
  An absent field and an empty one fail the same validator, \<^verbatim>\<open>required\<close>, so both are the
  empty string here.
\<close>

definition new_Contact ::
  "env \<Rightarrow> string option \<Rightarrow> string option \<Rightarrow> string option \<Rightarrow> string \<Rightarrow> string \<Rightarrow> contact" where
  "new_Contact e n em m ip ua =
     \<lparr>oid = fresh_id e, name = trim (str n), email = lowercase (trim (str em)),
      message = trim (str m), ipAddress = ip, userAgent = ua, createdAt = now e,
      status = Unread\<rparr>"

text \<open>
  The validators of the schema, path by path; the first failing validator of a path
  reports.  The two paths without a message of their own report the library's default
  message (written here without its backquotes around the path).
\<close>

definition schema_errors :: "contact \<Rightarrow> string list" where
  "schema_errors c =
     (if name c = [] then [''Name is required'']
      else if length (name c) > 100 then [''Name cannot exceed 100 characters''] else []) @
     (if email c = [] then [''Email is required'']
      else if \<not> regex_test emailRegex (email c) then [''Please provide a valid email''] else []) @
     (if message c = [] then [''Message is required'']
      else if length (message c) > 1000 then [''Message cannot exceed 1000 characters''] else []) @
     (if ipAddress c = [] then [''Path ipAddress is required.''] else []) @
     (if userAgent c = [] then [''Path userAgent is required.''] else [])"

text \<open>
  What a rejected promise carries: \<^verbatim>\<open>error.name === "ValidationError"\<close> with the messages of
  \<^verbatim>\<open>error.errors\<close>, any other rejection of the database, or a rejection of the mail transport.
\<close>

datatype error = ValidationError "string list" | StoreError | TransportError string

text \<open>\<^verbatim>\<open>contact.save()\<close>: validation first, then the write.\<close>

definition save :: "env \<Rightarrow> contact \<Rightarrow> contact list \<Rightarrow> error + contact list" where
  "save e c cs =
     (if schema_errors c \<noteq> [] then Inl (ValidationError (schema_errors c))
      else if store_fails e then Inl StoreError
      else Inr (cs @ [c]))"

text \<open>\<^verbatim>\<open>Contact.findByIdAndUpdate(id, {status}, {new: true})\<close> and \<^verbatim>\<open>findByIdAndDelete(id)\<close>.\<close>

fun findByIdAndUpdate :: "string \<Rightarrow> status \<Rightarrow> contact list \<Rightarrow> (contact \<times> contact list) option" where
  "findByIdAndUpdate i s [] = None"
| "findByIdAndUpdate i s (c # cs) =
     (if oid c = i then Some (c\<lparr>status := s\<rparr>, c\<lparr>status := s\<rparr> # cs)
      else (case findByIdAndUpdate i s cs of
              None \<Rightarrow> None
            | Some (d, ds) \<Rightarrow> Some (d, c # ds)))"

fun findByIdAndDelete :: "string \<Rightarrow> contact list \<Rightarrow> (contact \<times> contact list) option" where
  "findByIdAndDelete i [] = None"
| "findByIdAndDelete i (c # cs) =
     (if oid c = i then Some (c, cs)
      else (case findByIdAndDelete i cs of
              None \<Rightarrow> None
            | Some (d, ds) \<Rightarrow> Some (d, c # ds)))"

text \<open>
  The fields of the schema in a document as JSON (the version key the library adds is left
  out), and \<^verbatim>\<open>.select("-ipAddress -userAgent")\<close>.
\<close>

definition toJSON :: "contact \<Rightarrow> (string \<times> json) list" where
  "toJSON c =
     [(''_id'', JStr (oid c)), (''name'', JStr (name c)), (''email'', JStr (email c)),
      (''message'', JStr (message c)), (''ipAddress'', JStr (ipAddress c)),
      (''userAgent'', JStr (userAgent c)), (''createdAt'', JDate (createdAt c)),
      (''status'', JStr (status_name (status c)))]"

definition select_without :: "string list \<Rightarrow> (string \<times> json) list \<Rightarrow> (string \<times> json) list" where
  "select_without hidden d = filter (\<lambda>kv. fst kv \<notin> set hidden) d"

text \<open>\<^verbatim>\<open>.sort({createdAt: -1})\<close>.\<close>

definition sort_createdAt_desc :: "contact list \<Rightarrow> contact list" where
  "sort_createdAt_desc cs = sort_key (\<lambda>c. - int (createdAt c)) cs"

section \<open>The rate limiter\<close>

text \<open>The options of a limiter, and its table: per client address a count and the end of its window.\<close>

record limiter_cfg =
  windowMs :: nat
  lim_max :: nat
  lim_message :: string

type_synonym hits = "string \<Rightarrow> (nat \<times> nat) option"

text \<open>
  Modelled from the spec: \<^verbatim>\<open>rateLimit\<close> is the package express-rate-limit, which is not part
  of the sources.  The spec (4.1, 9) describes it as a mapping from the client address to
  a window and a count: a request increments the counter of its address within the current
  fixed window and is rejected with 429 once the counter exceeds the ceiling, until the
  window has elapsed.  The configurations are those of the source.
\<close>

definition rateLimit :: "limiter_cfg \<Rightarrow> hits \<Rightarrow> string \<Rightarrow> nat \<Rightarrow> hits \<times> bool" where
  "rateLimit cfg h key t =
     (let (count, resetTime) =
            (case h key of
               None \<Rightarrow> (0, t + windowMs cfg)
             | Some (n, r) \<Rightarrow> if t < r then (n, r) else (0, t + windowMs cfg))
      in (h(key \<mapsto> (count + 1, resetTime)), count + 1 \<le> lim_max cfg))"

definition limiter_v1 :: limiter_cfg where
  "limiter_v1 = \<lparr>windowMs = 15 * 60 * 1000, lim_max = 100,
     lim_message = ''Too many requests, try again later.''\<rparr>"

definition contactLimiter_v1 :: limiter_cfg where
  "contactLimiter_v1 = \<lparr>windowMs = 60 * 60 * 1000, lim_max = 5,
     lim_message = ''Too many contact requests, try again later.''\<rparr>"

definition limiter_v2 :: limiter_cfg where
  "limiter_v2 = \<lparr>windowMs = 15 * 60 * 1000, lim_max = 100,
     lim_message = ''Too many requests from this IP, please try again later.''\<rparr>"

definition contactLimiter_v2 :: limiter_cfg where
  "contactLimiter_v2 = \<lparr>windowMs = 60 * 60 * 1000, lim_max = 5,
     lim_message = ''Too many contact submissions from this IP, please try again later.''\<rparr>"

section \<open>Requests, the server's state and the handlers\<close>

text \<open>
  A request as the limiters and the routes see it.  \<^verbatim>\<open>helmet\<close>, \<^verbatim>\<open>morgan\<close>,
  \<^verbatim>\<open>cors\<close> and the body parsers pass it on and are not layers of the model: \<^verbatim>\<open>cors\<close>
  answers every \<^verbatim>\<open>OPTIONS\<close> request itself, so that method does not occur, and the
  body is the parsed one.  \<open>req_path\<close> is the path as the router compares it, lower-cased
  and without a trailing slash.  The query parameters \<^verbatim>\<open>page\<close> and \<^verbatim>\<open>limit\<close> are
  decimal numerals or absent; \<open>query_page\<close> and \<open>query_limit\<close> hold the number the
  digits denote, before the handler reads it as a number of the language.
\<close>

datatype verb = GET | HEAD | POST | PUT | PATCH | DELETE

record request =
  req_method :: verb
  req_path :: string
  req_ip :: string
  req_userAgent :: "string option"
  req_body :: body
  query_page :: "nat option"
  query_limit :: "nat option"
  query_status :: "string option"

text \<open>
  The writes the handlers issue, in the order of the calls: \<^verbatim>\<open>contact.save()\<close> and
  \<^verbatim>\<open>transporter.sendMail(...)\<close>, each recorded when it is called, whatever it answers.
\<close>

datatype call = Save contact | SendMail mail

record server =
  general_hits :: hits
  contact_hits :: hits
  store :: "contact list"
  calls :: "call list"

definition sendMail :: "env \<Rightarrow> mail \<Rightarrow> server \<Rightarrow> string option \<times> server" where
  "sendMail e m sv = (transport e m, sv\<lparr>calls := calls sv @ [SendMail m]\<rparr>)"

definition owner_mail :: "env \<Rightarrow> mail" where
  "owner_mail e = \<lparr>mail_from = (''Portfolio Contact'', OWNER_EMAIL e), mail_to = OWNER_EMAIL e,
     mail_subject = ''New Contact Form Submission''\<rparr>"

definition user_mail :: "env \<Rightarrow> string \<Rightarrow> mail" where
  "user_mail e addr = \<lparr>mail_from = (''Paras Jagdale'', OWNER_EMAIL e), mail_to = addr,
     mail_subject = ''Thank you for contacting!''\<rparr>"

definition test_mail :: "env \<Rightarrow> mail" where
  "test_mail e = \<lparr>mail_from = (''Test'', OWNER_EMAIL e), mail_to = OWNER_EMAIL e,
     mail_subject = ''Test Email''\<rparr>"

subsection \<open>First variant\<close>

definition contact_handler_v1 :: "env \<Rightarrow> request \<Rightarrow> server \<Rightarrow> response \<times> server" where
  "contact_handler_v1 e rq sv =
     (let failed = \<lparr>status_code = 500,
            payload = fail_json ''Failed to send message. Please try again later.''\<rparr>;
          (r1, sv1) = sendMail e (owner_mail e) sv
      in case r1 of
           Some err \<Rightarrow> (failed, sv1)
         | None \<Rightarrow>
            (let (r2, sv2) = sendMail e (user_mail e (str (body_email (req_body rq)))) sv1
             in case r2 of
                  Some err \<Rightarrow> (failed, sv2)
                | None \<Rightarrow>
                   (\<lparr>status_code = 200,
                     payload = JObj [(''success'', JBool True),
                       (''message'',
                        JStr ''Message sent successfully. Check your email for confirmation!'')]\<rparr>,
                    sv2)))"

definition health_v1 :: response where
  "health_v1 = \<lparr>status_code = 200,
     payload = JObj [(''success'', JBool True), (''message'', JStr ''Server is running'')]\<rparr>"

definition not_found :: response where
  "not_found = \<lparr>status_code = 404, payload = fail_json ''Route not found''\<rparr>"

definition test_email_handler :: "env \<Rightarrow> server \<Rightarrow> response \<times> server" where
  "test_email_handler e sv =
     (let (r, sv1) = sendMail e (test_mail e) sv
      in case r of
           Some err \<Rightarrow>
             (\<lparr>status_code = 500,
               payload = JObj [(''success'', JBool False), (''error'', JStr err)]\<rparr>, sv1)
         | None \<Rightarrow>
             (\<lparr>status_code = 200,
               payload = JObj [(''success'', JBool True), (''message'', JStr ''Test email sent'')]\<rparr>,
              sv1))"

subsection \<open>Second variant\<close>

definition health_v2 :: "env \<Rightarrow> response" where
  "health_v2 e = \<lparr>status_code = 200,
     payload = JObj [(''success'', JBool True), (''message'', JStr ''Server is running''),
       (''timestamp'', JDate (now e))]\<rparr>"

text \<open>The \<^verbatim>\<open>catch\<close> block of the submission handler.\<close>

definition contact_catch :: "error \<Rightarrow> response" where
  "contact_catch err =
     (case err of
        ValidationError msgs \<Rightarrow>
          \<lparr>status_code = 400,
           payload = JObj [(''success'', JBool False), (''message'', JStr ''Validation error''),
             (''errors'', JArr (map JStr msgs))]\<rparr>
      | _ \<Rightarrow>
          \<lparr>status_code = 500,
           payload = fail_json ''Internal server error. Please try again later.''\<rparr>)"

definition contact_handler_v2 :: "env \<Rightarrow> request \<Rightarrow> server \<Rightarrow> response \<times> server" where
  "contact_handler_v2 e rq sv =
     (let b = req_body rq;
          ipAddress = req_ip rq;
          userAgent = (if falsy (req_userAgent rq) then ''Unknown'' else str (req_userAgent rq));
          contact = new_Contact e (body_name b) (body_email b) (body_message b) ipAddress userAgent;
          sv0 = sv\<lparr>calls := calls sv @ [Save contact]\<rparr>
      in case save e contact (store sv0) of
           Inl err \<Rightarrow> (contact_catch err, sv0)
         | Inr cs \<Rightarrow>
            (let (r1, sv1) = sendMail e (owner_mail e) (sv0\<lparr>store := cs\<rparr>)
             in case r1 of
                  Some m1 \<Rightarrow> (contact_catch (TransportError m1), sv1)
                | None \<Rightarrow>
                   (let (r2, sv2) = sendMail e (user_mail e (str (body_email b))) sv1
                    in case r2 of
                         Some m2 \<Rightarrow> (contact_catch (TransportError m2), sv2)
                       | None \<Rightarrow>
                          (\<lparr>status_code = 201,
                            payload = JObj [(''success'', JBool True),
                              (''message'',
                               JStr ''Message sent successfully! Thank you for reaching out.''),
                              (''data'', JObj [(''id'', JStr (oid contact)),
                                 (''timestamp'', JDate (createdAt contact))])]\<rparr>,
                           sv2))))"

definition server_error :: response where
  "server_error = \<lparr>status_code = 500, payload = fail_json ''Internal server error''\<rparr>"

text \<open>
  The numbers of the language are IEEE doubles.  \<^verbatim>\<open>limit * 1\<close>, \<^verbatim>\<open>page - 1\<close>,
  \<^verbatim>\<open>total / limit\<close> and \<^verbatim>\<open>parseInt\<close> read a decimal numeral as the double nearest to
  it: the numeral itself below \<open>2\<^sup>5\<^sup>3\<close>, and above that the nearest multiple of the
  spacing a significand of 53 bits leaves, the even one of two that are equally near.
  \<open>bits n\<close> is the length of \<open>n\<close> in binary.  Numerals of more than 308 digits, which
  are read as \<^verbatim>\<open>Infinity\<close>, are not considered.
\<close>

fun bits :: "nat \<Rightarrow> nat" where
  "bits n = (if n = 0 then 0 else Suc (bits (n div 2)))"

definition to_double :: "nat \<Rightarrow> nat" where
  "to_double n =
     (if n < 2 ^ 53 then n
      else (let s = bits n - 53;
                q = n div 2 ^ s;
                r = n mod 2 ^ s
            in (if 2 ^ s < 2 * r \<or> (2 * r = 2 ^ s \<and> odd q) then q + 1 else q) * 2 ^ s))"

text \<open>
  \<^verbatim>\<open>GET /api/contacts\<close>.  The store applies \<^verbatim>\<open>skip\<close> before \<^verbatim>\<open>limit\<close>, takes a limit of 0
  as no limit and rejects a negative skip, which is what \<^verbatim>\<open>(page - 1) * limit\<close> is for
  page 0.  Every use of \<^verbatim>\<open>page\<close> and \<^verbatim>\<open>limit\<close> in the handler reads the numeral as a
  number, so \<open>page\<close> and \<open>limit\<close> below are the numbers read; the difference and the
  product are rounded as every result of the language's arithmetic is.  \<^verbatim>\<open>Math.ceil(total / limit)\<close> is not finite for limit 0 and then
  serialised as \<^verbatim>\<open>null\<close>; otherwise the quotient is rounded before the ceiling is
  taken, which for a total below \<open>2\<^sup>5\<^sup>3\<close> leaves the ceiling what it is for the exact
  quotient (\<open>ceiling_rounded_quotient\<close> below), so the exact one is written here.
\<close>

definition get_contacts :: "env \<Rightarrow> request \<Rightarrow> server \<Rightarrow> response \<times> server" where
  "get_contacts e rq sv =
     (let page = (case query_page rq of None \<Rightarrow> 1 | Some p \<Rightarrow> to_double p);
          limit = (case query_limit rq of None \<Rightarrow> 10 | Some l \<Rightarrow> to_double l);
          status = (case query_status rq of None \<Rightarrow> ''all'' | Some s \<Rightarrow> s);
          matching = (if status \<noteq> ''all''
                      then filter (\<lambda>c. status_name (contact.status c) = status) (store sv)
                      else store sv)
      in if store_fails e \<or> (page = 0 \<and> 0 < limit) then (server_error, sv)
         else
           (let found = drop (to_double (to_double (page - 1) * limit))
                          (sort_createdAt_desc matching);
                contacts = (if limit = 0 then found else take limit found);
                total = length matching
            in (\<lparr>status_code = 200,
                 payload = JObj [(''success'', JBool True),
                   (''data'', JArr (map (\<lambda>c. JObj (select_without [''ipAddress'', ''userAgent'']
                                                   (toJSON c))) contacts)),
                   (''pagination'', JObj [(''page'', JNum (int page)), (''limit'', JNum (int limit)),
                      (''total'', JNum (int total)),
                      (''pages'', if limit = 0 then JNull
                                  else JNum \<lceil>real total / real limit\<rceil>)])]\<rparr>,
                sv)))"

text \<open>\<^verbatim>\<open>PATCH /api/contacts/:id\<close> and \<^verbatim>\<open>DELETE /api/contacts/:id\<close>, given the parameter.\<close>

definition patch_contact :: "env \<Rightarrow> string \<Rightarrow> request \<Rightarrow> server \<Rightarrow> response \<times> server" where
  "patch_contact e i rq sv =
     (case parse_status (body_status (req_body rq)) of
        None \<Rightarrow> (\<lparr>status_code = 400, payload = fail_json ''Invalid status value''\<rparr>, sv)
      | Some st \<Rightarrow>
          if store_fails e then (server_error, sv)
          else (case findByIdAndUpdate i st (store sv) of
                  None \<Rightarrow> (\<lparr>status_code = 404, payload = fail_json ''Contact not found''\<rparr>, sv)
                | Some (c, cs) \<Rightarrow>
                    (\<lparr>status_code = 200,
                      payload = JObj [(''success'', JBool True), (''data'', JObj (toJSON c))]\<rparr>,
                     sv\<lparr>store := cs\<rparr>)))"

definition delete_contact :: "env \<Rightarrow> string \<Rightarrow> server \<Rightarrow> response \<times> server" where
  "delete_contact e i sv =
     (if store_fails e then (server_error, sv)
      else (case findByIdAndDelete i (store sv) of
              None \<Rightarrow> (\<lparr>status_code = 404, payload = fail_json ''Contact not found''\<rparr>, sv)
            | Some (c, cs) \<Rightarrow>
                (\<lparr>status_code = 200,
                  payload = JObj [(''success'', JBool True),
                    (''message'', JStr ''Contact deleted successfully'')]\<rparr>,
                 sv\<lparr>store := cs\<rparr>)))"

section \<open>Routing\<close>

text \<open>
  The application is the list of its layers in the order of registration.  A request walks
  the list: every layer whose path (and, for a route, whose method) matches runs its
  handlers in turn; a handler answers, which ends the walk, or calls \<^verbatim>\<open>next()\<close>.  The walk
  also returns the handlers it has entered.  The error-handling middleware of the second
  variant is skipped by every request whose handlers do not fail, which is all of them here:
  each handler catches its own errors.
\<close>

datatype handler =
    Limiter_v1 | ContactLimiter_v1 | ValidateContactInput_v1 | Contact_v1 | Health_v1
  | NotFound_v1 | TestEmail_v1
  | Limiter_v2 | ContactLimiter_v2 | ValidateContactInput_v2 | Contact_v2 | Health_v2
  | GetContacts_v2 | PatchContact_v2 | DeleteContact_v2 | NotFound_v2

text \<open>
  \<open>Mount ''/api''\<close> is \<^verbatim>\<open>app.use("/api/", ...)\<close>, \<open>Wildcard\<close> is \<^verbatim>\<open>"*"\<close>, and
  \<open>WithId ''/api/contacts/''\<close> is \<^verbatim>\<open>"/api/contacts/:id"\<close>.
\<close>

datatype pattern = Mount string | Wildcard | Exact string | WithId string

datatype layer = Use pattern handler | Route verb pattern "handler list"

fun path_matches :: "pattern \<Rightarrow> string \<Rightarrow> bool" where
  "path_matches Wildcard p = True"
| "path_matches (Mount m) p = (p = m \<or> prefix (m @ ''/'') p)"
| "path_matches (Exact x) p = (p = x)"
| "path_matches (WithId x) p =
     (prefix x p \<and> drop (length x) p \<noteq> [] \<and> CHR ''/'' \<notin> set (drop (length x) p))"

text \<open>A \<^verbatim>\<open>get\<close> route also serves \<^verbatim>\<open>HEAD\<close>.\<close>

definition method_matches :: "verb \<Rightarrow> verb \<Rightarrow> bool" where
  "method_matches m r = (r = m \<or> (m = GET \<and> r = HEAD))"

fun layer_matches :: "layer \<Rightarrow> request \<Rightarrow> bool" where
  "layer_matches (Use p h) rq = path_matches p (req_path rq)"
| "layer_matches (Route m p hs) rq = (method_matches m (req_method rq) \<and> path_matches p (req_path rq))"

fun handlers :: "layer \<Rightarrow> handler list" where
  "handlers (Use p h) = [h]"
| "handlers (Route m p hs) = hs"

definition too_many :: "limiter_cfg \<Rightarrow> response" where
  "too_many cfg = \<lparr>status_code = 429, payload = JStr (lim_message cfg)\<rparr>"

definition limit_general :: "limiter_cfg \<Rightarrow> env \<Rightarrow> request \<Rightarrow> server \<Rightarrow> response option \<times> server" where
  "limit_general cfg e rq sv =
     (let (h, ok) = rateLimit cfg (general_hits sv) (req_ip rq) (now e)
      in (if ok then None else Some (too_many cfg), sv\<lparr>general_hits := h\<rparr>))"

definition limit_contact :: "limiter_cfg \<Rightarrow> env \<Rightarrow> request \<Rightarrow> server \<Rightarrow> response option \<times> server" where
  "limit_contact cfg e rq sv =
     (let (h, ok) = rateLimit cfg (contact_hits sv) (req_ip rq) (now e)
      in (if ok then None else Some (too_many cfg), sv\<lparr>contact_hits := h\<rparr>))"

definition answer :: "response \<times> server \<Rightarrow> response option \<times> server" where
  "answer x = (Some (fst x), snd x)"

definition param_id :: "request \<Rightarrow> string" where
  "param_id rq = drop (length ''/api/contacts/'') (req_path rq)"

fun run_handler :: "handler \<Rightarrow> env \<Rightarrow> request \<Rightarrow> server \<Rightarrow> response option \<times> server" where
  "run_handler Limiter_v1 e rq sv = limit_general limiter_v1 e rq sv"
| "run_handler ContactLimiter_v1 e rq sv = limit_contact contactLimiter_v1 e rq sv"
| "run_handler ValidateContactInput_v1 e rq sv = (validateContactInput_v1 (req_body rq), sv)"
| "run_handler Contact_v1 e rq sv = answer (contact_handler_v1 e rq sv)"
| "run_handler Health_v1 e rq sv = (Some health_v1, sv)"
| "run_handler NotFound_v1 e rq sv = (Some not_found, sv)"
| "run_handler TestEmail_v1 e rq sv = answer (test_email_handler e sv)"
| "run_handler Limiter_v2 e rq sv = limit_general limiter_v2 e rq sv"
| "run_handler ContactLimiter_v2 e rq sv = limit_contact contactLimiter_v2 e rq sv"
| "run_handler ValidateContactInput_v2 e rq sv = (validateContactInput_v2 (req_body rq), sv)"
| "run_handler Contact_v2 e rq sv = answer (contact_handler_v2 e rq sv)"
| "run_handler Health_v2 e rq sv = (Some (health_v2 e), sv)"
| "run_handler GetContacts_v2 e rq sv = answer (get_contacts e rq sv)"
| "run_handler PatchContact_v2 e rq sv = answer (patch_contact e (param_id rq) rq sv)"
| "run_handler DeleteContact_v2 e rq sv = answer (delete_contact e (param_id rq) sv)"
| "run_handler NotFound_v2 e rq sv = (Some not_found, sv)"

fun run_chain ::
  "handler list \<Rightarrow> env \<Rightarrow> request \<Rightarrow> server \<Rightarrow> handler list
     \<Rightarrow> response option \<times> server \<times> handler list" where
  "run_chain [] e rq sv tr = (None, sv, tr)"
| "run_chain (h # hs) e rq sv tr =
     (case run_handler h e rq sv of
        (Some r, sv') \<Rightarrow> (Some r, sv', tr @ [h])
      | (None, sv') \<Rightarrow> run_chain hs e rq sv' (tr @ [h]))"

text \<open>A request that no layer answers gets the framework's own 404 page.\<close>

fun dispatch ::
  "layer list \<Rightarrow> env \<Rightarrow> request \<Rightarrow> server \<Rightarrow> handler list
     \<Rightarrow> response \<times> server \<times> handler list" where
  "dispatch [] e rq sv tr = (\<lparr>status_code = 404, payload = JNull\<rparr>, sv, tr)"
| "dispatch (l # ls) e rq sv tr =
     (if layer_matches l rq then
        (case run_chain (handlers l) e rq sv tr of
           (Some r, sv', tr') \<Rightarrow> (r, sv', tr')
         | (None, sv', tr') \<Rightarrow> dispatch ls e rq sv' tr')
      else dispatch ls e rq sv tr)"

definition app_v1 :: "layer list" where
  "app_v1 =
     [Use (Mount ''/api'') Limiter_v1,
      Route POST (Exact ''/api/contact'') [ContactLimiter_v1, ValidateContactInput_v1, Contact_v1],
      Route GET (Exact ''/api/health'') [Health_v1],
      Use Wildcard NotFound_v1,
      Route GET (Exact ''/api/test-email'') [TestEmail_v1]]"

definition app_v2 :: "layer list" where
  "app_v2 =
     [Use (Mount ''/api'') Limiter_v2,
      Route GET (Exact ''/api/health'') [Health_v2],
      Route POST (Exact ''/api/contact'') [ContactLimiter_v2, ValidateContactInput_v2, Contact_v2],
      Route GET (Exact ''/api/contacts'') [GetContacts_v2],
      Route PATCH (WithId ''/api/contacts/'') [PatchContact_v2],
      Route DELETE (WithId ''/api/contacts/'') [DeleteContact_v2],
      Use Wildcard NotFound_v2]"

definition serve_v1 :: "env \<Rightarrow> request \<Rightarrow> server \<Rightarrow> response \<times> server \<times> handler list" where
  "serve_v1 e rq sv = dispatch app_v1 e rq sv []"

definition serve_v2 :: "env \<Rightarrow> request \<Rightarrow> server \<Rightarrow> response \<times> server \<times> handler list" where
  "serve_v2 e rq sv = dispatch app_v2 e rq sv []"

text \<open>Whether a limiter lets the request through.\<close>

definition admits :: "limiter_cfg \<Rightarrow> hits \<Rightarrow> env \<Rightarrow> request \<Rightarrow> bool" where
  "admits cfg h e rq = snd (rateLimit cfg h (req_ip rq) (now e))"

text \<open>The three components of what \<open>serve\<close> returns.\<close>

definition response_of :: "response \<times> server \<times> handler list \<Rightarrow> response" where
  "response_of x = fst x"

definition server_of :: "response \<times> server \<times> handler list \<Rightarrow> server" where
  "server_of x = fst (snd x)"

definition entered :: "response \<times> server \<times> handler list \<Rightarrow> handler list" where
  "entered x = snd (snd x)"

text \<open>The state once a limiter has counted the request.\<close>

definition counted_general :: "limiter_cfg \<Rightarrow> env \<Rightarrow> request \<Rightarrow> server \<Rightarrow> server" where
  "counted_general cfg e rq sv =
     sv\<lparr>general_hits := fst (rateLimit cfg (general_hits sv) (req_ip rq) (now e))\<rparr>"

definition counted_contact :: "limiter_cfg \<Rightarrow> env \<Rightarrow> request \<Rightarrow> server \<Rightarrow> server" where
  "counted_contact cfg e rq sv =
     sv\<lparr>contact_hits := fst (rateLimit cfg (contact_hits sv) (req_ip rq) (now e))\<rparr>"

text \<open>How many submissions of an address the contact limiter has counted in the window open at time \<open>t\<close>.\<close>

definition counted_submissions :: "server \<Rightarrow> string \<Rightarrow> nat \<Rightarrow> nat" where
  "counted_submissions sv a t =
     (case contact_hits sv a of None \<Rightarrow> 0 | Some (n, r) \<Rightarrow> if t < r then n else 0)"

text \<open>The document the submission handler of the second variant builds from a request.\<close>

definition contact_of :: "env \<Rightarrow> request \<Rightarrow> contact" where
  "contact_of e rq =
     new_Contact e (body_name (req_body rq)) (body_email (req_body rq)) (body_message (req_body rq))
       (req_ip rq) (if falsy (req_userAgent rq) then ''Unknown'' else str (req_userAgent rq))"

section \<open>The shape of an accepted email, in the words of the specification\<close>

text \<open>
  The language of a pattern, and the shape the specification describes: a local part and a
  domain, each made of runs of word characters with an optional dot or hyphen between two
  runs, followed by at least one final segment, a dot and two or three characters of a
  given kind.
\<close>

definition conc :: "string set \<Rightarrow> string set \<Rightarrow> string set" where
  "conc A B = {u @ v | u v. u \<in> A \<and> v \<in> B}"

inductive_set star :: "string set \<Rightarrow> string set" for A :: "string set" where
  star_empty: "[] \<in> star A"
| star_more: "u \<in> A \<Longrightarrow> v \<in> star A \<Longrightarrow> u @ v \<in> star A"

fun lang :: "regex \<Rightarrow> string set" where
  "lang Fail = {}"
| "lang Eps = {[]}"
| "lang (Ch k) = {[c] | c. in_class k c}"
| "lang (Cat r s) = conc (lang r) (lang s)"
| "lang (Or r s) = lang r \<union> lang s"
| "lang (Many r) = star (lang r)"

definition after :: "char \<Rightarrow> string set \<Rightarrow> string set" where
  "after c A = {w. c # w \<in> A}"

definition word_run :: "string \<Rightarrow> bool" where
  "word_run w \<longleftrightarrow> w \<noteq> [] \<and> (\<forall>c\<in>set w. is_word c)"

inductive_set separated :: "string set" where
  sep_one: "word_run w \<Longrightarrow> w \<in> separated"
| sep_more: "word_run w \<Longrightarrow> sep \<in> {[], ''.'', ''-''} \<Longrightarrow> p \<in> separated \<Longrightarrow> w @ sep @ p \<in> separated"

definition final_segment :: "(char \<Rightarrow> bool) \<Rightarrow> string \<Rightarrow> bool" where
  "final_segment ok seg \<longleftrightarrow> (length seg = 2 \<or> length seg = 3) \<and> (\<forall>c\<in>set seg. ok c)"

inductive_set final_segments :: "(char \<Rightarrow> bool) \<Rightarrow> string set" for ok :: "char \<Rightarrow> bool" where
  fin_one: "final_segment ok seg \<Longrightarrow> CHR ''.'' # seg \<in> final_segments ok"
| fin_more: "final_segment ok seg \<Longrightarrow> t \<in> final_segments ok \<Longrightarrow> CHR ''.'' # seg @ t \<in> final_segments ok"

definition email_shape :: "(char \<Rightarrow> bool) \<Rightarrow> string \<Rightarrow> bool" where
  "email_shape ok e \<longleftrightarrow>
     (\<exists>l d t. l \<in> separated \<and> d \<in> separated \<and> t \<in> final_segments ok \<and> e = l @ ''@'' @ d @ t)"

text \<open>The pattern of the source with the class of the final segments left open.\<close>

definition email_pattern :: "charclass \<Rightarrow> regex" where
  "email_pattern k =
     Cat (some (Ch WordChar))
    (Cat (Many (Cat (maybe (Ch (AnyOf ''.-''))) (some (Ch WordChar))))
    (Cat (Ch (Lit (CHR ''@'')))
    (Cat (some (Ch WordChar))
    (Cat (Many (Cat (maybe (Ch (AnyOf ''.-''))) (some (Ch WordChar))))
         (some (Cat (Ch (Lit (CHR ''.''))) (two_or_three (Ch k))))))))"

section \<open>Sample inputs\<close>

text \<open>
  A request at time 1000 with the database and the mail transport up, a server that has
  seen no request, and the scenario of the specification: Ann's submission.
\<close>

definition env0 :: env where
  "env0 = \<lparr>now = 1000, fresh_id = ''65f0a1b2c3d4e5f6a7b8c9d0'', store_fails = False,
     transport = (\<lambda>m. None), OWNER_EMAIL = ''owner@example.com''\<rparr>"

definition server0 :: server where
  "server0 = \<lparr>general_hits = (\<lambda>a. None), contact_hits = (\<lambda>a. None), store = [], calls = []\<rparr>"

definition submit :: "body \<Rightarrow> request" where
  "submit b = \<lparr>req_method = POST, req_path = ''/api/contact'', req_ip = ''203.0.113.7'',
     req_userAgent = Some ''curl/8.5'', req_body = b, query_page = None, query_limit = None,
     query_status = None\<rparr>"

definition ann :: body where
  "ann = \<lparr>body_name = Some ''Ann'', body_email = Some ''ann@example.com'', body_message = Some ''Hi'',
     body_status = None\<rparr>"

text \<open>
  The transport rejects the message to the owner; a name of blanks; an address whose final
  segment is digits; an address without \<^verbatim>\<open>@\<close>.
\<close>

definition env_owner_down :: env where
  "env_owner_down = env0\<lparr>transport :=
     (\<lambda>m. if mail_subject m = ''New Contact Form Submission'' then Some ''ECONNREFUSED'' else None)\<rparr>"

definition blank_name :: body where
  "blank_name = ann\<lparr>body_name := Some ''   ''\<rparr>"

definition digits_tld :: body where
  "digits_tld = ann\<lparr>body_email := Some ''a@b.12''\<rparr>"

definition no_at :: body where
  "no_at = ann\<lparr>body_email := Some ''ann.b.co''\<rparr>"

text \<open>A server that holds Ann's record, and a status update for an id.\<close>

definition stored_ann :: contact where
  "stored_ann = contact_of env0 (submit ann)"

definition server1 :: server where
  "server1 = server0\<lparr>store := [stored_ann]\<rparr>"

definition patch :: "string \<Rightarrow> string option \<Rightarrow> request" where
  "patch i st = \<lparr>req_method = PATCH, req_path = ''/api/contacts/'' @ i, req_ip = ''203.0.113.7'',
     req_userAgent = None, req_body = \<lparr>body_name = None, body_email = None, body_message = None,
     body_status = st\<rparr>, query_page = None, query_limit = None, query_status = None\<rparr>"

text \<open>A request to the test route of the first variant.\<close>

definition get_test_email :: request where
  "get_test_email = \<lparr>req_method = GET, req_path = ''/api/test-email'', req_ip = ''203.0.113.7'',
     req_userAgent = None, req_body = \<lparr>body_name = None, body_email = None, body_message = None,
     body_status = None\<rparr>, query_page = None, query_limit = None, query_status = None\<rparr>"

text \<open>A store of 25 records, created at the times 1000 to 1024, and a request for a page.\<close>

definition contacts25 :: "contact list" where
  "contacts25 =
     map (\<lambda>i. stored_ann\<lparr>oid := replicate (Suc i) CHR ''a'', createdAt := 1000 + i\<rparr>)
       [0, 1, 2, 3, 4, 5, 6, 7, 8, 9, 10, 11, 12, 13, 14, 15, 16, 17, 18, 19, 20, 21, 22, 23, 24]"

definition server25 :: server where
  "server25 = server0\<lparr>store := contacts25\<rparr>"

definition list_page :: "nat option \<Rightarrow> nat option \<Rightarrow> request" where
  "list_page p l = \<lparr>req_method = GET, req_path = ''/api/contacts'', req_ip = ''203.0.113.7'',
     req_userAgent = None, req_body = \<lparr>body_name = None, body_email = None, body_message = None,
     body_status = None\<rparr>, query_page = p, query_limit = l, query_status = None\<rparr>"

text \<open>
  The state after a sequence of requests; five submissions of one address within an hour,
  valid or not, and the moment of a sixth, one millisecond before the window closes.
\<close>

fun after_requests_v2 :: "(env \<times> request) list \<Rightarrow> server \<Rightarrow> server" where
  "after_requests_v2 [] sv = sv"
| "after_requests_v2 (x # xs) sv = after_requests_v2 xs (server_of (serve_v2 (fst x) (snd x) sv))"

definition five_submissions :: "(env \<times> request) list" where
  "five_submissions =
     [(env0, submit ann), (env0\<lparr>now := 2000\<rparr>, submit blank_name), (env0\<lparr>now := 3000\<rparr>, submit no_at),
      (env0\<lparr>now := 600000\<rparr>, submit ann), (env0\<lparr>now := 3600000\<rparr>, submit digits_tld)]"

definition env_late :: env where
  "env_late = env0\<lparr>now := 3600999\<rparr>"

section \<open>The list operation, in the words of the specification\<close>

text \<open>
  The page and the page size of a request with their defaults; the records the filter
  keeps; the records from the most recent to the oldest; the records of a page, pages
  counted from 1; and a record as it is returned, without \<^verbatim>\<open>ipAddress\<close> and
  \<^verbatim>\<open>userAgent\<close>.
\<close>

definition page_of :: "request \<Rightarrow> nat" where
  "page_of rq = (case query_page rq of None \<Rightarrow> 1 | Some p \<Rightarrow> p)"

definition pageSize_of :: "request \<Rightarrow> nat" where
  "pageSize_of rq = (case query_limit rq of None \<Rightarrow> 10 | Some l \<Rightarrow> l)"

definition status_word :: "status \<Rightarrow> string" where
  "status_word s = (case s of Unread \<Rightarrow> ''unread'' | Read \<Rightarrow> ''read'' | Replied \<Rightarrow> ''replied'')"

definition matching :: "request \<Rightarrow> contact list \<Rightarrow> contact list" where
  "matching rq cs =
     (case query_status rq of
        None \<Rightarrow> cs
      | Some s \<Rightarrow> if s = ''all'' then cs else filter (\<lambda>c. status_word (status c) = s) cs)"

fun put_by_time :: "contact \<Rightarrow> contact list \<Rightarrow> contact list" where
  "put_by_time c [] = [c]"
| "put_by_time c (d # ds) = (if createdAt d \<le> createdAt c then c # d # ds else d # put_by_time c ds)"

definition most_recent_first :: "contact list \<Rightarrow> contact list" where
  "most_recent_first cs = foldr put_by_time cs []"

definition shown :: "request \<Rightarrow> contact list \<Rightarrow> contact list" where
  "shown rq cs =
     take (pageSize_of rq) (drop ((page_of rq - 1) * pageSize_of rq) (most_recent_first (matching rq cs)))"

definition projected :: "contact \<Rightarrow> json" where
  "projected c =
     JObj [(''_id'', JStr (oid c)), (''name'', JStr (name c)), (''email'', JStr (email c)),
       (''message'', JStr (message c)), (''createdAt'', JDate (createdAt c)),
       (''status'', JStr (status_word (status c)))]"

section \<open>The matcher and the language of a pattern\<close>

lemma nullable_iff: "nullable r \<longleftrightarrow> [] \<in> lang r"
  by (induction r) (auto simp: conc_def intro: star.star_empty)

lemma lang_cat: "lang (cat r s) = conc (lang r) (lang s)"
  by (induction r s rule: cat.induct) (auto simp: conc_def)

lemma lang_alt: "lang (alt r s) = lang r \<union> lang s"
  by (induction r s rule: alt.induct) auto

lemma after_conc:
  "after c (conc A B) = conc (after c A) B \<union> (if [] \<in> A then after c B else {})"
proof -
  have "w \<in> after c (conc A B) \<longleftrightarrow>
        w \<in> conc (after c A) B \<union> (if [] \<in> A then after c B else {})" for w
  proof
    assume "w \<in> after c (conc A B)"
    then obtain u v where uv: "c # w = u @ v" "u \<in> A" "v \<in> B"
      by (auto simp: after_def conc_def)
    show "w \<in> conc (after c A) B \<union> (if [] \<in> A then after c B else {})"
    proof (cases u)
      case Nil
      with uv show ?thesis by (auto simp: after_def)
    next
      case (Cons a u')
      with uv have "a = c" "w = u' @ v" "c # u' \<in> A" by auto
      with uv show ?thesis by (auto simp: after_def conc_def)
    qed
  next
    assume "w \<in> conc (after c A) B \<union> (if [] \<in> A then after c B else {})"
    then consider (l) "w \<in> conc (after c A) B" | (r) "[] \<in> A" "w \<in> after c B"
      by (auto split: if_splits)
    then show "w \<in> after c (conc A B)"
    proof cases
      case l
      then obtain u v where "w = u @ v" "c # u \<in> A" "v \<in> B"
        by (auto simp: after_def conc_def)
      then have "c # w = (c # u) @ v \<and> c # u \<in> A \<and> v \<in> B" by simp
      then show ?thesis unfolding after_def conc_def by blast
    next
      case r
      then have "c # w = [] @ (c # w) \<and> [] \<in> A \<and> c # w \<in> B" by (simp add: after_def)
      then show ?thesis unfolding after_def conc_def by blast
    qed
  qed
  then show ?thesis by blast
qed

lemma star_step:
  assumes "x \<in> star A" and "x = c # w"
  shows "\<exists>u v. w = u @ v \<and> c # u \<in> A \<and> v \<in> star A"
  using assms
proof (induction arbitrary: w rule: star.induct)
  case star_empty
  then show ?case by simp
next
  case (star_more u v)
  show ?case
  proof (cases u)
    case Nil
    with star_more show ?thesis by simp
  next
    case (Cons a u')
    with star_more.prems have "w = u' @ v" "a = c" by auto
    with Cons star_more.hyps show ?thesis by blast
  qed
qed

lemma after_star: "after c (star A) = conc (after c A) (star A)"
proof -
  have "w \<in> after c (star A) \<longleftrightarrow> w \<in> conc (after c A) (star A)" for w
  proof
    assume "w \<in> after c (star A)"
    then have "c # w \<in> star A" by (simp add: after_def)
    from star_step [OF this refl] show "w \<in> conc (after c A) (star A)"
      by (auto simp: after_def conc_def)
  next
    assume "w \<in> conc (after c A) (star A)"
    then obtain u v where "w = u @ v" "c # u \<in> A" "v \<in> star A"
      by (auto simp: after_def conc_def)
    then have "(c # u) @ v \<in> star A" and "w = u @ v"
      using star.star_more [of "c # u" A v] by simp_all
    then show "w \<in> after c (star A)" by (simp add: after_def)
  qed
  then show ?thesis by blast
qed

lemma lang_deriv: "lang (deriv c r) = after c (lang r)"
proof (induction r)
  case (Cat r s)
  then show ?case
    by (simp add: lang_cat lang_alt after_conc nullable_iff)
next
  case (Many r)
  then show ?case by (simp add: lang_cat after_star)
qed (auto simp: after_def lang_alt)

lemma lang_derivs: "nullable (foldl (\<lambda>q c. deriv c q) r s) \<longleftrightarrow> s \<in> lang r"
  by (induction s arbitrary: r) (simp_all add: nullable_iff lang_deriv after_def)

lemma regex_test_lang: "regex_test r s \<longleftrightarrow> s \<in> lang r"
  by (simp add: regex_test_def lang_derivs)

section \<open>The email pattern and the shape it describes\<close>

lemma concI: "u \<in> A \<Longrightarrow> v \<in> B \<Longrightarrow> u @ v \<in> conc A B"
  unfolding conc_def by blast

lemma star_chars: "star {[c] | c. P c} = {w. \<forall>c\<in>set w. P c}"
proof -
  have "w \<in> star {[c] | c. P c} \<Longrightarrow> \<forall>c\<in>set w. P c" for w
    by (induction rule: star.induct) auto
  moreover have "\<forall>c\<in>set w. P c \<Longrightarrow> w \<in> star {[c] | c. P c}" for w
  proof (induction w)
    case Nil
    show ?case by (rule star.star_empty)
  next
    case (Cons a w)
    then have "[a] \<in> {[c] | c. P c}" and "w \<in> star {[c] | c. P c}" by auto
    from star.star_more [OF this] show ?case by simp
  qed
  ultimately show ?thesis by blast
qed

lemma lang_runs: "lang (some (Ch WordChar)) = {w. word_run w}"
proof -
  have "conc {[c] | c. is_word c} {w. \<forall>c\<in>set w. is_word c} = {w. word_run w}"
  proof -
    have "w \<in> conc {[c] | c. is_word c} {w. \<forall>c\<in>set w. is_word c} \<longleftrightarrow> word_run w" for w
    proof
      assume "w \<in> conc {[c] | c. is_word c} {w. \<forall>c\<in>set w. is_word c}"
      then show "word_run w" by (auto simp: conc_def word_run_def)
    next
      assume "word_run w"
      then obtain a r where w: "w = a # r" "is_word a" "\<forall>c\<in>set r. is_word c"
        by (cases w) (auto simp: word_run_def)
      then have "[a] \<in> {[c] | c. is_word c}" and "r \<in> {w. \<forall>c\<in>set w. is_word c}" by auto
      from concI [OF this] show "w \<in> conc {[c] | c. is_word c} {w. \<forall>c\<in>set w. is_word c}"
        by (simp add: w(1))
    qed
    then show ?thesis by blast
  qed
  then show ?thesis by (simp add: some_def star_chars)
qed

lemma lang_seps: "lang (maybe (Ch (AnyOf ''.-''))) = {[], ''.'', ''-''}"
  by (auto simp: maybe_def)

lemma separated_conc:
  "conc {w. word_run w} (star (conc {[], ''.'', ''-''} {w. word_run w})) = separated"
proof -
  let ?S = "conc {[], ''.'', ''-''} {w. word_run w}"
  have a: "y \<in> star ?S \<Longrightarrow> word_run w \<Longrightarrow> w @ y \<in> separated" for y w
  proof (induction arbitrary: w rule: star.induct)
    case star_empty
    then show ?case by (simp add: separated.sep_one)
  next
    case (star_more u v)
    from star_more.hyps(1) obtain sep w' where u: "u = sep @ w'" "sep \<in> {[], ''.'', ''-''}" "word_run w'"
      by (auto simp: conc_def)
    from star_more.IH [OF u(3)] have "w' @ v \<in> separated" .
    from separated.sep_more [OF star_more.prems u(2) this] show ?case by (simp add: u(1))
  qed
  have b: "x \<in> separated \<Longrightarrow> x \<in> conc {w. word_run w} (star ?S)" for x
  proof (induction rule: separated.induct)
    case (sep_one w)
    then have "w = w @ [] \<and> w \<in> {w. word_run w} \<and> [] \<in> star ?S"
      by (simp add: star.star_empty)
    then show ?case unfolding conc_def by blast
  next
    case (sep_more w sep p)
    from sep_more.IH obtain w' y where p: "p = w' @ y" "word_run w'" "y \<in> star ?S"
      by (auto simp: conc_def)
    from sep_more.hyps(2) p(2) have "sep @ w' \<in> ?S" unfolding conc_def by blast
    from star.star_more [OF this p(3)] have "(sep @ w') @ y \<in> star ?S" .
    with sep_more.hyps(1) have "w @ sep @ p = w @ ((sep @ w') @ y) \<and> w \<in> {w. word_run w}
        \<and> (sep @ w') @ y \<in> star ?S"
      by (simp add: p(1))
    then show ?case unfolding conc_def by blast
  qed
  show ?thesis
  proof (rule set_eqI)
    fix x
    show "x \<in> conc {w. word_run w} (star ?S) \<longleftrightarrow> x \<in> separated"
    proof
      assume "x \<in> conc {w. word_run w} (star ?S)"
      then obtain w y where "x = w @ y" "word_run w" "y \<in> star ?S" by (auto simp: conc_def)
      with a show "x \<in> separated" by simp
    qed (rule b)
  qed
qed

lemma lang_separated:
  "conc (lang (some (Ch WordChar))) (lang (Many (Cat (maybe (Ch (AnyOf ''.-''))) (some (Ch WordChar)))))
     = separated"
  using separated_conc by (simp only: lang.simps lang_runs lang_seps)

lemma lang_two_or_three: "lang (two_or_three (Ch k)) = {seg. final_segment (in_class k) seg}"
proof (rule set_eqI)
  fix w
  show "w \<in> lang (two_or_three (Ch k)) \<longleftrightarrow> w \<in> {seg. final_segment (in_class k) seg}"
  proof
    assume "w \<in> lang (two_or_three (Ch k))"
    then show "w \<in> {seg. final_segment (in_class k) seg}"
      by (auto simp: two_or_three_def maybe_def conc_def final_segment_def)
  next
    assume "w \<in> {seg. final_segment (in_class k) seg}"
    then have len: "length w = 2 \<or> length w = 3" and ok: "\<forall>c\<in>set w. in_class k c"
      by (simp_all add: final_segment_def)
    from len obtain a b r where w: "w = a # b # r" "r = [] \<or> (\<exists>c. r = [c])"
      by (cases w; cases "tl w"; cases "tl (tl w)") auto
    with ok have "in_class k a" "in_class k b" "r = [] \<or> (\<exists>c. r = [c] \<and> in_class k c)" by auto
    then have "w = [a] @ [b] @ r \<and> [a] \<in> lang (Ch k) \<and> [b] \<in> lang (Ch k) \<and> r \<in> lang (maybe (Ch k))"
      using w by (auto simp: maybe_def)
    then show "w \<in> lang (two_or_three (Ch k))"
      unfolding two_or_three_def lang.simps(4) conc_def by blast
  qed
qed

lemma final_segments_conc:
  "conc {CHR ''.'' # seg | seg. final_segment ok seg} (star {CHR ''.'' # seg | seg. final_segment ok seg})
     = final_segments ok"
proof -
  let ?D = "{CHR ''.'' # seg | seg. final_segment ok seg}"
  have a: "y \<in> star ?D \<Longrightarrow> final_segment ok seg \<Longrightarrow> CHR ''.'' # seg @ y \<in> final_segments ok" for y seg
  proof (induction arbitrary: seg rule: star.induct)
    case star_empty
    then show ?case by (simp add: final_segments.fin_one)
  next
    case (star_more u v)
    from star_more.hyps(1) obtain seg' where u: "u = CHR ''.'' # seg'" "final_segment ok seg'" by auto
    from star_more.IH [OF u(2)] have "CHR ''.'' # seg' @ v \<in> final_segments ok" .
    from final_segments.fin_more [OF star_more.prems this] show ?case by (simp add: u(1))
  qed
  have b: "x \<in> final_segments ok \<Longrightarrow> x \<in> conc ?D (star ?D)" for x
  proof (induction rule: final_segments.induct)
    case (fin_one seg)
    then have "CHR ''.'' # seg = (CHR ''.'' # seg) @ [] \<and> CHR ''.'' # seg \<in> ?D \<and> [] \<in> star ?D"
      by (auto simp: star.star_empty)
    then show ?case unfolding conc_def by blast
  next
    case (fin_more seg t)
    from fin_more.IH obtain d y where t: "t = d @ y" "d \<in> ?D" "y \<in> star ?D"
      by (auto simp: conc_def)
    from star.star_more [OF t(2,3)] have "t \<in> star ?D" by (simp add: t(1))
    with fin_more.hyps(1) have "CHR ''.'' # seg @ t = (CHR ''.'' # seg) @ t \<and> CHR ''.'' # seg \<in> ?D
        \<and> t \<in> star ?D"
      by auto
    then show ?case unfolding conc_def by blast
  qed
  show ?thesis
  proof (rule set_eqI)
    fix x
    show "x \<in> conc ?D (star ?D) \<longleftrightarrow> x \<in> final_segments ok"
    proof
      assume "x \<in> conc ?D (star ?D)"
      then obtain d y where "x = d @ y" "d \<in> ?D" "y \<in> star ?D" by (auto simp: conc_def)
      with a show "x \<in> final_segments ok" by auto
    qed (rule b)
  qed
qed

lemma lang_final_segments:
  "lang (some (Cat (Ch (Lit (CHR ''.''))) (two_or_three (Ch k)))) = final_segments (in_class k)"
proof -
  have "lang (Cat (Ch (Lit (CHR ''.''))) (two_or_three (Ch k)))
      = {CHR ''.'' # seg | seg. final_segment (in_class k) seg}"
    by (auto simp: lang_two_or_three conc_def)
  then show ?thesis
    using final_segments_conc [of "in_class k"] by (simp add: some_def)
qed

lemma conc_assoc: "conc (conc A B) C = conc A (conc B C)"
proof (rule set_eqI)
  fix x
  show "x \<in> conc (conc A B) C \<longleftrightarrow> x \<in> conc A (conc B C)"
  proof
    assume "x \<in> conc (conc A B) C"
    then obtain a b c where "x = (a @ b) @ c" "a \<in> A" "b \<in> B" "c \<in> C" by (auto simp: conc_def)
    then have "x = a @ (b @ c) \<and> a \<in> A \<and> b \<in> B \<and> c \<in> C" by simp
    then show "x \<in> conc A (conc B C)" unfolding conc_def by blast
  next
    assume "x \<in> conc A (conc B C)"
    then obtain a b c where "x = a @ (b @ c)" "a \<in> A" "b \<in> B" "c \<in> C" by (auto simp: conc_def)
    then have "x = (a @ b) @ c \<and> a \<in> A \<and> b \<in> B \<and> c \<in> C" by simp
    then show "x \<in> conc (conc A B) C" unfolding conc_def by blast
  qed
qed

lemma lang_email_pattern: "lang (email_pattern k) = {e. email_shape (in_class k) e}"
proof -
  let ?W = "lang (some (Ch WordChar))"
  let ?M = "lang (Many (Cat (maybe (Ch (AnyOf ''.-''))) (some (Ch WordChar))))"
  let ?T = "lang (some (Cat (Ch (Lit (CHR ''.''))) (two_or_three (Ch k))))"
  have "lang (email_pattern k) = conc ?W (conc ?M (conc {''@''} (conc ?W (conc ?M ?T))))"
    unfolding email_pattern_def lang.simps(4) by simp
  also have "\<dots> = conc (conc ?W ?M) (conc {''@''} (conc (conc ?W ?M) ?T))"
    by (simp only: conc_assoc)
  also have "\<dots> = conc separated (conc {''@''} (conc separated (final_segments (in_class k))))"
    by (simp only: lang_separated lang_final_segments)
  also have "\<dots> = {e. email_shape (in_class k) e}"
  proof (rule set_eqI)
    fix e
    let ?F = "final_segments (in_class k)"
    show "e \<in> conc separated (conc {''@''} (conc separated ?F)) \<longleftrightarrow> e \<in> {e. email_shape (in_class k) e}"
    proof
      assume "e \<in> conc separated (conc {''@''} (conc separated ?F))"
      then show "e \<in> {e. email_shape (in_class k) e}"
        by (auto simp: conc_def email_shape_def)
    next
      assume "e \<in> {e. email_shape (in_class k) e}"
      then obtain l d t where e: "l \<in> separated" "d \<in> separated" "t \<in> ?F" "e = l @ ''@'' @ d @ t"
        by (auto simp: email_shape_def)
      have "''@'' \<in> {''@''}" by simp
      from concI [OF e(1) concI [OF this concI [OF e(2,3)]]]
      show "e \<in> conc separated (conc {''@''} (conc separated ?F))" by (simp add: e(4))
    qed
  qed
  finally show ?thesis .
qed

lemma emailRegex_pattern: "emailRegex = email_pattern WordChar"
  by (simp add: emailRegex_def email_pattern_def)

lemma email_pattern_shape: "regex_test (email_pattern k) e \<longleftrightarrow> email_shape (in_class k) e"
  by (simp add: regex_test_lang lang_email_pattern)

lemma emailRegex_shape: "regex_test emailRegex e \<longleftrightarrow> email_shape is_word e"
proof -
  have "in_class WordChar = is_word" by (rule ext) simp
  then show ?thesis using email_pattern_shape [of WordChar e] by (simp add: emailRegex_pattern)
qed

lemma email_shape_nonempty: "email_shape ok em \<Longrightarrow> em \<noteq> []"
  by (auto simp: email_shape_def)

lemma in_class_Letter: "in_class Letter = is_letter"
  by (rule ext) simp

lemma email_accepted_iff:
  "\<not> falsy v \<and> regex_test emailRegex (str v) \<longleftrightarrow> email_shape is_word (str v)"
  using email_shape_nonempty [of is_word "str v"]
  by (auto simp: emailRegex_shape falsy_def str_def split: option.splits)

section \<open>The schema after the validator\<close>

text \<open>The schema agrees with the validator, up to blank names and messages.\<close>

lemma word_not_space: "is_word c \<Longrightarrow> \<not> is_space c"
  by (auto simp: is_word_def is_space_def Let_def)

lemma trim_id:
  assumes "s \<noteq> []" and "\<not> is_space (hd s)" and "\<not> is_space (last s)"
  shows "trim s = s"
proof -
  from assms(1,2) have "dropWhile is_space s = s" by (cases s) auto
  moreover from assms(1,3) have "dropWhile is_space (rev s) = rev s"
    by (cases "rev s") (auto simp: last_rev [symmetric] simp del: last_rev)
  ultimately show ?thesis by (simp add: trim_def)
qed

lemma length_trim: "length (trim s) \<le> length s"
proof -
  have "length (dropWhile is_space (rev (dropWhile is_space s))) \<le> length (rev (dropWhile is_space s))"
    by (rule length_dropWhile_le)
  also have "\<dots> \<le> length s" by (simp add: length_dropWhile_le)
  finally show ?thesis by (simp add: trim_def)
qed

lemma word_run_ends: "word_run w \<Longrightarrow> w \<noteq> [] \<and> is_word (hd w) \<and> is_word (last w)"
  by (cases w) (auto simp: word_run_def)

lemma separated_hd: "l \<in> separated \<Longrightarrow> l \<noteq> [] \<and> is_word (hd l)"
  by (induction rule: separated.induct) (auto dest: word_run_ends)

lemma final_segments_last: "t \<in> final_segments ok \<Longrightarrow> t \<noteq> [] \<and> ok (last t)"
proof (induction rule: final_segments.induct)
  case (fin_one seg)
  then have "seg \<noteq> []" and "\<forall>c\<in>set seg. ok c" by (auto simp: final_segment_def)
  then have "seg \<noteq> []" and "ok (last seg)" using last_in_set [of seg] by auto
  then show ?case by simp
next
  case (fin_more seg t)
  then show ?case by simp
qed

lemma email_shape_ends:
  assumes "email_shape is_word em"
  shows "em \<noteq> [] \<and> is_word (hd em) \<and> is_word (last em)"
proof -
  from assms obtain l d t where e: "l \<in> separated" "t \<in> final_segments is_word" "em = l @ ''@'' @ d @ t"
    by (auto simp: email_shape_def)
  from separated_hd [OF e(1)] final_segments_last [OF e(2)] show ?thesis
    by (simp add: e(3))
qed

lemma to_lower_word: "is_word c \<Longrightarrow> is_word (to_lower c)"
  by (auto simp: is_word_def to_lower_def Let_def)

lemma to_lower_marks [simp]:
  "to_lower CHR ''.'' = CHR ''.''" "to_lower CHR ''-'' = CHR ''-''" "to_lower CHR ''@'' = CHR ''@''"
  by (simp_all add: to_lower_def)

lemma word_run_lower: "word_run w \<Longrightarrow> word_run (map to_lower w)"
  by (auto simp: word_run_def to_lower_word)

lemma separated_lower: "l \<in> separated \<Longrightarrow> map to_lower l \<in> separated"
proof (induction rule: separated.induct)
  case (sep_one w)
  then show ?case by (simp add: separated.sep_one word_run_lower)
next
  case (sep_more w sep p)
  from sep_more.hyps(2) have "map to_lower sep = sep" by auto
  with separated.sep_more [OF word_run_lower [OF sep_more.hyps(1)] sep_more.hyps(2) sep_more.IH]
  show ?case by simp
qed

lemma final_segment_lower: "final_segment is_word seg \<Longrightarrow> final_segment is_word (map to_lower seg)"
  by (auto simp: final_segment_def to_lower_word)

lemma final_segments_lower: "t \<in> final_segments is_word \<Longrightarrow> map to_lower t \<in> final_segments is_word"
proof (induction rule: final_segments.induct)
  case (fin_one seg)
  from final_segments.fin_one [OF final_segment_lower [OF this]] show ?case by simp
next
  case (fin_more seg t)
  from final_segments.fin_more [OF final_segment_lower [OF fin_more.hyps(1)] fin_more.IH]
  show ?case by simp
qed

lemma email_shape_lower:
  assumes "email_shape is_word em"
  shows "email_shape is_word (lowercase em)"
proof -
  from assms obtain l d t where e: "l \<in> separated" "d \<in> separated" "t \<in> final_segments is_word"
    "em = l @ ''@'' @ d @ t"
    by (auto simp: email_shape_def)
  have "lowercase em = map to_lower l @ ''@'' @ map to_lower d @ map to_lower t"
    by (simp add: e(4) lowercase_def)
  with separated_lower [OF e(1)] separated_lower [OF e(2)] final_segments_lower [OF e(3)]
  show ?thesis unfolding email_shape_def by blast
qed

lemma schema_email_ok:
  assumes "regex_test emailRegex em"
  shows "lowercase (trim em) \<noteq> [] \<and> regex_test emailRegex (lowercase (trim em))"
proof -
  from assms have s: "email_shape is_word em" by (simp add: emailRegex_shape)
  from email_shape_ends [OF s] have "trim em = em"
    by (intro trim_id) (auto dest: word_not_space)
  with email_shape_lower [OF s] email_shape_nonempty [of is_word "lowercase em"]
  show ?thesis by (simp add: emailRegex_shape)
qed

section \<open>The submission route\<close>

lemma limit_general_eq:
  "limit_general cfg e rq sv =
     (if admits cfg (general_hits sv) e rq then None else Some (too_many cfg),
      counted_general cfg e rq sv)"
  by (simp add: limit_general_def admits_def counted_general_def split: prod.splits)

lemma limit_contact_eq:
  "limit_contact cfg e rq sv =
     (if admits cfg (contact_hits sv) e rq then None else Some (too_many cfg),
      counted_contact cfg e rq sv)"
  by (simp add: limit_contact_def admits_def counted_contact_def split: prod.splits)

lemma counted_fields [simp]:
  "store (counted_general cfg e rq sv) = store sv"
  "calls (counted_general cfg e rq sv) = calls sv"
  "contact_hits (counted_general cfg e rq sv) = contact_hits sv"
  "store (counted_contact cfg e rq sv) = store sv"
  "calls (counted_contact cfg e rq sv) = calls sv"
  "general_hits (counted_contact cfg e rq sv) = general_hits sv"
  by (simp_all add: counted_general_def counted_contact_def)

lemma status_too_many [simp]: "status_code (too_many cfg) = 429"
  by (simp add: too_many_def)

lemma serve_v2_contact:
  assumes "req_method rq = POST" and "req_path rq = ''/api/contact''"
  shows "serve_v2 e rq sv =
     (let sv1 = counted_general limiter_v2 e rq sv; sv2 = counted_contact contactLimiter_v2 e rq sv1 in
      if \<not> admits limiter_v2 (general_hits sv) e rq then
        (too_many limiter_v2, sv1, [Limiter_v2])
      else if \<not> admits contactLimiter_v2 (contact_hits sv) e rq then
        (too_many contactLimiter_v2, sv2, [Limiter_v2, ContactLimiter_v2])
      else (case validateContactInput_v2 (req_body rq) of
              Some r \<Rightarrow> (r, sv2, [Limiter_v2, ContactLimiter_v2, ValidateContactInput_v2])
            | None \<Rightarrow> (fst (contact_handler_v2 e rq sv2), snd (contact_handler_v2 e rq sv2),
                 [Limiter_v2, ContactLimiter_v2, ValidateContactInput_v2, Contact_v2])))"
  using assms
  by (simp add: serve_v2_def app_v2_def limit_general_eq limit_contact_eq method_matches_def
      answer_def Let_def split: option.splits)

lemma serve_v1_contact:
  assumes "req_method rq = POST" and "req_path rq = ''/api/contact''"
  shows "serve_v1 e rq sv =
     (let sv1 = counted_general limiter_v1 e rq sv; sv2 = counted_contact contactLimiter_v1 e rq sv1 in
      if \<not> admits limiter_v1 (general_hits sv) e rq then
        (too_many limiter_v1, sv1, [Limiter_v1])
      else if \<not> admits contactLimiter_v1 (contact_hits sv) e rq then
        (too_many contactLimiter_v1, sv2, [Limiter_v1, ContactLimiter_v1])
      else (case validateContactInput_v1 (req_body rq) of
              Some r \<Rightarrow> (r, sv2, [Limiter_v1, ContactLimiter_v1, ValidateContactInput_v1])
            | None \<Rightarrow> (fst (contact_handler_v1 e rq sv2), snd (contact_handler_v1 e rq sv2),
                 [Limiter_v1, ContactLimiter_v1, ValidateContactInput_v1, Contact_v1])))"
  using assms
  by (simp add: serve_v1_def app_v1_def limit_general_eq limit_contact_eq method_matches_def
      answer_def Let_def split: option.splits)

text \<open>What the validators answer, when they answer, has status 400.\<close>

lemma validate_v1_400: "validateContactInput_v1 b = Some r \<Longrightarrow> status_code r = 400"
  by (auto simp: validateContactInput_v1_def Let_def split: if_splits)

lemma validate_v2_400: "validateContactInput_v2 b = Some r \<Longrightarrow> status_code r = 400"
  by (auto simp: validateContactInput_v2_def Let_def split: if_splits)

lemma validate_v1_accepts:
  "validateContactInput_v1 b = None \<longleftrightarrow>
     \<not> falsy (body_name b) \<and> \<not> falsy (body_email b) \<and> \<not> falsy (body_message b) \<and>
     length (str (body_name b)) \<le> 100 \<and> length (str (body_message b)) \<le> 1000 \<and>
     regex_test emailRegex (str (body_email b))"
  by (auto simp: validateContactInput_v1_def Let_def)

lemma validate_v2_accepts:
  "validateContactInput_v2 b = None \<longleftrightarrow>
     \<not> falsy (body_name b) \<and> \<not> falsy (body_email b) \<and> \<not> falsy (body_message b) \<and>
     length (str (body_name b)) \<le> 100 \<and> length (str (body_message b)) \<le> 1000 \<and>
     regex_test emailRegex (str (body_email b))"
  by (auto simp: validateContactInput_v2_def Let_def)

lemma validators_agree: "validateContactInput_v1 b = None \<longleftrightarrow> validateContactInput_v2 b = None"
  by (simp add: validate_v1_accepts validate_v2_accepts)

lemma schema_errors_validated:
  assumes "validateContactInput_v2 (req_body rq) = None"
  shows "schema_errors (contact_of e rq) = [] \<longleftrightarrow>
     trim (str (body_name (req_body rq))) \<noteq> [] \<and> trim (str (body_message (req_body rq))) \<noteq> []
     \<and> req_ip rq \<noteq> []"
proof -
  from assms have v: "length (str (body_name (req_body rq))) \<le> 100"
    "length (str (body_message (req_body rq))) \<le> 1000"
    "regex_test emailRegex (str (body_email (req_body rq)))"
    by (simp_all add: validate_v2_accepts)
  from v(1) length_trim [of "str (body_name (req_body rq))"]
  have n: "\<not> length (trim (str (body_name (req_body rq)))) > 100" by simp
  from v(2) length_trim [of "str (body_message (req_body rq))"]
  have m: "\<not> length (trim (str (body_message (req_body rq)))) > 1000" by simp
  have u: "(if falsy (req_userAgent rq) then ''Unknown'' else str (req_userAgent rq)) \<noteq> []"
    by (auto simp: falsy_def str_def split: option.splits)
  from n m u schema_email_ok [OF v(3)] show ?thesis
    by (simp add: schema_errors_def contact_of_def new_Contact_def)
qed

text \<open>A request that a validator answers: the status is 400 when the limiters admit it, and
  nothing is written in any case.\<close>

lemma rejected_v2:
  assumes "req_method rq = POST" and "req_path rq = ''/api/contact''"
    and "validateContactInput_v2 (req_body rq) \<noteq> None"
  shows "(admits limiter_v2 (general_hits sv) e rq \<and> admits contactLimiter_v2 (contact_hits sv) e rq
            \<longrightarrow> status_code (response_of (serve_v2 e rq sv)) = 400)
         \<and> store (server_of (serve_v2 e rq sv)) = store sv
         \<and> calls (server_of (serve_v2 e rq sv)) = calls sv"
  using assms(3)
  by (auto simp: serve_v2_contact [OF assms(1,2)] response_of_def server_of_def Let_def
      validate_v2_400)

lemma rejected_v1:
  assumes "req_method rq = POST" and "req_path rq = ''/api/contact''"
    and "validateContactInput_v1 (req_body rq) \<noteq> None"
  shows "(admits limiter_v1 (general_hits sv) e rq \<and> admits contactLimiter_v1 (contact_hits sv) e rq
            \<longrightarrow> status_code (response_of (serve_v1 e rq sv)) = 400)
         \<and> store (server_of (serve_v1 e rq sv)) = store sv
         \<and> calls (server_of (serve_v1 e rq sv)) = calls sv"
  using assms(3)
  by (auto simp: serve_v1_contact [OF assms(1,2)] response_of_def server_of_def Let_def
      validate_v1_400)

text \<open>A request the limiters admit and the validator accepts reaches the handler.\<close>

lemma serve_v2_accepted:
  assumes "req_method rq = POST" and "req_path rq = ''/api/contact''"
    and "admits limiter_v2 (general_hits sv) e rq"
    and "admits contactLimiter_v2 (contact_hits sv) e rq"
    and "validateContactInput_v2 (req_body rq) = None"
  shows "response_of (serve_v2 e rq sv) =
           fst (contact_handler_v2 e rq
             (counted_contact contactLimiter_v2 e rq (counted_general limiter_v2 e rq sv)))"
    and "server_of (serve_v2 e rq sv) =
           snd (contact_handler_v2 e rq
             (counted_contact contactLimiter_v2 e rq (counted_general limiter_v2 e rq sv)))"
    and "entered (serve_v2 e rq sv) =
           [Limiter_v2, ContactLimiter_v2, ValidateContactInput_v2, Contact_v2]"
  using assms(3-5)
  by (simp_all add: serve_v2_contact [OF assms(1,2)] response_of_def server_of_def entered_def
      Let_def)

lemma serve_v1_accepted:
  assumes "req_method rq = POST" and "req_path rq = ''/api/contact''"
    and "admits limiter_v1 (general_hits sv) e rq"
    and "admits contactLimiter_v1 (contact_hits sv) e rq"
    and "validateContactInput_v1 (req_body rq) = None"
  shows "response_of (serve_v1 e rq sv) =
           fst (contact_handler_v1 e rq
             (counted_contact contactLimiter_v1 e rq (counted_general limiter_v1 e rq sv)))"
    and "server_of (serve_v1 e rq sv) =
           snd (contact_handler_v1 e rq
             (counted_contact contactLimiter_v1 e rq (counted_general limiter_v1 e rq sv)))"
  using assms(3-5)
  by (simp_all add: serve_v1_contact [OF assms(1,2)] response_of_def server_of_def Let_def)

section \<open>The submission handlers\<close>

text \<open>The submission handler of the second variant, path by path.\<close>

lemma contact_handler_v2_invalid:
  assumes "schema_errors (contact_of e rq) \<noteq> []"
  shows "contact_handler_v2 e rq sv =
     (contact_catch (ValidationError (schema_errors (contact_of e rq))),
      sv\<lparr>calls := calls sv @ [Save (contact_of e rq)]\<rparr>)"
  using assms by (simp add: contact_handler_v2_def contact_of_def save_def Let_def)

lemma contact_handler_v2_store_fails:
  assumes "schema_errors (contact_of e rq) = []" and "store_fails e"
  shows "contact_handler_v2 e rq sv =
     (contact_catch StoreError, sv\<lparr>calls := calls sv @ [Save (contact_of e rq)]\<rparr>)"
  using assms by (simp add: contact_handler_v2_def contact_of_def save_def Let_def)

lemma contact_handler_v2_owner_fails:
  assumes "schema_errors (contact_of e rq) = []" and "\<not> store_fails e"
    and "transport e (owner_mail e) = Some m"
  shows "contact_handler_v2 e rq sv =
     (contact_catch (TransportError m),
      sv\<lparr>calls := calls sv @ [Save (contact_of e rq), SendMail (owner_mail e)],
         store := store sv @ [contact_of e rq]\<rparr>)"
  using assms by (simp add: contact_handler_v2_def contact_of_def save_def sendMail_def Let_def)

lemma contact_handler_v2_user_fails:
  assumes "schema_errors (contact_of e rq) = []" and "\<not> store_fails e"
    and "transport e (owner_mail e) = None"
    and "transport e (user_mail e (str (body_email (req_body rq)))) = Some m"
  shows "contact_handler_v2 e rq sv =
     (contact_catch (TransportError m),
      sv\<lparr>calls := calls sv @ [Save (contact_of e rq), SendMail (owner_mail e),
                              SendMail (user_mail e (str (body_email (req_body rq))))],
         store := store sv @ [contact_of e rq]\<rparr>)"
  using assms by (simp add: contact_handler_v2_def contact_of_def save_def sendMail_def Let_def)

lemma contact_handler_v2_ok:
  assumes "schema_errors (contact_of e rq) = []" and "\<not> store_fails e"
    and "transport e (owner_mail e) = None"
    and "transport e (user_mail e (str (body_email (req_body rq)))) = None"
  shows "contact_handler_v2 e rq sv =
     (\<lparr>status_code = 201,
       payload = JObj [(''success'', JBool True),
         (''message'', JStr ''Message sent successfully! Thank you for reaching out.''),
         (''data'', JObj [(''id'', JStr (oid (contact_of e rq))),
            (''timestamp'', JDate (createdAt (contact_of e rq)))])]\<rparr>,
      sv\<lparr>calls := calls sv @ [Save (contact_of e rq), SendMail (owner_mail e),
                              SendMail (user_mail e (str (body_email (req_body rq))))],
         store := store sv @ [contact_of e rq]\<rparr>)"
  using assms by (simp add: contact_handler_v2_def contact_of_def save_def sendMail_def Let_def)

lemma contact_handler_v1_ok:
  assumes "transport e (owner_mail e) = None"
    and "transport e (user_mail e (str (body_email (req_body rq)))) = None"
  shows "contact_handler_v1 e rq sv =
     (\<lparr>status_code = 200,
       payload = JObj [(''success'', JBool True),
         (''message'', JStr ''Message sent successfully. Check your email for confirmation!'')]\<rparr>,
      sv\<lparr>calls := calls sv @ [SendMail (owner_mail e),
                              SendMail (user_mail e (str (body_email (req_body rq))))]\<rparr>)"
  using assms by (simp add: contact_handler_v1_def sendMail_def Let_def)

lemma status_contact_catch [simp]:
  "status_code (contact_catch (ValidationError ms)) = 400"
  "status_code (contact_catch StoreError) = 500"
  "status_code (contact_catch (TransportError m)) = 500"
  by (simp_all add: contact_catch_def)

lemma status_new_Contact [simp]: "status (new_Contact e n em m ip ua) = Unread"
  by (simp add: new_Contact_def)

lemma contact_handler_hits [simp]:
  "general_hits (snd (contact_handler_v2 e rq sv)) = general_hits sv"
  "contact_hits (snd (contact_handler_v2 e rq sv)) = contact_hits sv"
  "general_hits (snd (contact_handler_v1 e rq sv)) = general_hits sv"
  "contact_hits (snd (contact_handler_v1 e rq sv)) = contact_hits sv"
  by (simp_all add: contact_handler_v2_def contact_handler_v1_def sendMail_def Let_def
      split: sum.splits option.splits prod.splits)

section \<open>The sample inputs\<close>

lemma admits_server0 [simp]:
  "admits limiter_v1 (general_hits server0) e rq" "admits contactLimiter_v1 (contact_hits server0) e rq"
  "admits limiter_v2 (general_hits server0) e rq" "admits contactLimiter_v2 (contact_hits server0) e rq"
  by (simp_all add: admits_def rateLimit_def server0_def limiter_v1_def contactLimiter_v1_def
      limiter_v2_def contactLimiter_v2_def)

lemma server0_fields [simp]: "store server0 = []" "calls server0 = []"
  by (simp_all add: server0_def)

lemma submit_fields [simp]:
  "req_method (submit b) = POST" "req_path (submit b) = ''/api/contact''" "req_body (submit b) = b"
  "req_ip (submit b) = ''203.0.113.7''" "req_userAgent (submit b) = Some ''curl/8.5''"
  by (simp_all add: submit_def)

lemma env0_fields [simp]:
  "store_fails env0 = False" "transport env0 m = None"
  "store_fails env_owner_down = False"
  "transport env_owner_down (owner_mail env_owner_down) = Some ''ECONNREFUSED''"
  by (simp_all add: env0_def env_owner_down_def owner_mail_def)

lemma env0_stamp: "now env0 = 1000" "fresh_id env0 = ''65f0a1b2c3d4e5f6a7b8c9d0''"
  by (simp_all add: env0_def)

lemmas regex_eval = regex_test_def emailRegex_def email_pattern_def some_def maybe_def
  two_or_three_def is_word_def is_letter_def

text \<open>The address of the specification's scenario has the shape: \<open>ann\<close>, \<open>example\<close>, \<open>.com\<close>.\<close>

lemma ann_email: "regex_test emailRegex ''ann@example.com''"
proof -
  have "word_run ''ann''" and "word_run ''example''"
    by (simp_all add: word_run_def is_word_def)
  then have "''ann'' \<in> separated" and "''example'' \<in> separated"
    by (simp_all add: separated.sep_one)
  moreover have "final_segment is_word ''com''"
    by (simp add: final_segment_def is_word_def)
  from final_segments.fin_one [OF this] have "''.com'' \<in> final_segments is_word" by simp
  moreover have "''ann@example.com'' = ''ann'' @ ''@'' @ ''example'' @ ''.com''" by simp
  ultimately have "email_shape is_word ''ann@example.com''"
    unfolding email_shape_def by blast
  then show ?thesis by (simp add: emailRegex_shape)
qed

lemma sample_emails:
  "regex_test emailRegex ''a@b.12''" "\<not> regex_test (email_pattern Letter) ''a@b.12''"
  "\<not> regex_test emailRegex ''ann.b.co''"
  by (simp_all add: regex_eval)

lemma sample_trims: "trim ''Ann'' = ''Ann''" "trim ''Hi'' = ''Hi''" "trim ''   '' = []"
  by (simp_all add: trim_def is_space_def)

lemma sample_valid [simp]:
  "validateContactInput_v2 ann = None" "validateContactInput_v2 blank_name = None"
  "validateContactInput_v2 digits_tld = None"
  by (simp_all add: validate_v2_accepts ann_def blank_name_def digits_tld_def falsy_def str_def
      sample_emails ann_email)

lemma sample_schema:
  "schema_errors (contact_of e (submit ann)) = []"
  "schema_errors (contact_of e (submit digits_tld)) = []"
  "schema_errors (contact_of e (submit blank_name)) = [''Name is required'']"
proof -
  show "schema_errors (contact_of e (submit ann)) = []"
    by (simp add: schema_errors_validated) (simp add: ann_def str_def sample_trims)
  show "schema_errors (contact_of e (submit digits_tld)) = []"
    by (simp add: schema_errors_validated) (simp add: digits_tld_def ann_def str_def sample_trims)
  from schema_email_ok [OF ann_email]
  show "schema_errors (contact_of e (submit blank_name)) = [''Name is required'']"
    by (simp add: schema_errors_def contact_of_def new_Contact_def blank_name_def ann_def
        falsy_def str_def sample_trims)
qed

section \<open>Persist, then notify\<close>

text \<open>
  Claim C1 says that every payload the validator accepts leads to exactly one new record and
  to two attempted sends.  Two accepted payloads for which it fails: a name of blanks passes
  the validator, but the schema trims it and then misses the required name, so nothing is
  stored and nothing is sent; and when the transport rejects the owner's message, the
  submitter's message is never attempted.
\<close>

theorem C1_counterexample:
  "validateContactInput_v2 blank_name = None
   \<and> store (server_of (serve_v2 env0 (submit blank_name) server0)) = []
   \<and> calls (server_of (serve_v2 env0 (submit blank_name) server0)) =
       [Save (contact_of env0 (submit blank_name))]
   \<and> validateContactInput_v2 ann = None
   \<and> store (server_of (serve_v2 env_owner_down (submit ann) server0)) =
       [contact_of env_owner_down (submit ann)]
   \<and> calls (server_of (serve_v2 env_owner_down (submit ann) server0)) =
       [Save (contact_of env_owner_down (submit ann)), SendMail (owner_mail env_owner_down)]"
  by (simp add: serve_v2_accepted(2) contact_handler_v2_invalid contact_handler_v2_owner_fails
      sample_schema)

text \<open>
  Claim C1, amended.  For a payload the validator accepts (second variant): when the save
  succeeds, exactly one record, with status unread, is added to the store; the sends come
  only after the save, the owner's first, and the submitter's is attempted when the owner's
  was delivered.  When the save fails, no record is added and no send is attempted.  The
  save succeeds when the schema has no objection, which for an accepted payload means that
  name and message are not blank and the client address is known, and the database takes
  the write.
\<close>

theorem C1_persist_then_notify:
  assumes "req_method rq = POST" and "req_path rq = ''/api/contact''"
    and "admits limiter_v2 (general_hits sv) e rq"
    and "admits contactLimiter_v2 (contact_hits sv) e rq"
    and "validateContactInput_v2 (req_body rq) = None"
  shows "(schema_errors (contact_of e rq) = [] \<longleftrightarrow>
            trim (str (body_name (req_body rq))) \<noteq> []
          \<and> trim (str (body_message (req_body rq))) \<noteq> [] \<and> req_ip rq \<noteq> [])
       \<and> (if schema_errors (contact_of e rq) = [] \<and> \<not> store_fails e
          then store (server_of (serve_v2 e rq sv)) = store sv @ [contact_of e rq]
             \<and> status (contact_of e rq) = Unread
             \<and> calls (server_of (serve_v2 e rq sv)) =
                 calls sv @ Save (contact_of e rq) # SendMail (owner_mail e) #
                   (if transport e (owner_mail e) = None
                    then [SendMail (user_mail e (str (body_email (req_body rq))))] else [])
          else store (server_of (serve_v2 e rq sv)) = store sv
             \<and> calls (server_of (serve_v2 e rq sv)) = calls sv @ [Save (contact_of e rq)])"
proof -
  note sv = serve_v2_accepted(2) [OF assms]
  have "if schema_errors (contact_of e rq) = [] \<and> \<not> store_fails e
          then store (server_of (serve_v2 e rq sv)) = store sv @ [contact_of e rq]
             \<and> status (contact_of e rq) = Unread
             \<and> calls (server_of (serve_v2 e rq sv)) =
                 calls sv @ Save (contact_of e rq) # SendMail (owner_mail e) #
                   (if transport e (owner_mail e) = None
                    then [SendMail (user_mail e (str (body_email (req_body rq))))] else [])
          else store (server_of (serve_v2 e rq sv)) = store sv
             \<and> calls (server_of (serve_v2 e rq sv)) = calls sv @ [Save (contact_of e rq)]"
  proof (cases "schema_errors (contact_of e rq) = []")
    case False
    then show ?thesis by (simp add: sv contact_handler_v2_invalid)
  next
    case valid: True
    show ?thesis
    proof (cases "store_fails e")
      case True
      with valid show ?thesis by (simp add: sv contact_handler_v2_store_fails)
    next
      case up: False
      show ?thesis
      proof (cases "transport e (owner_mail e)")
        case (Some m)
        with valid up show ?thesis
          by (simp add: sv contact_handler_v2_owner_fails contact_of_def)
      next
        case None
        with valid up show ?thesis
          by (cases "transport e (user_mail e (str (body_email (req_body rq))))")
            (simp_all add: sv contact_handler_v2_user_fails contact_handler_v2_ok contact_of_def)
      qed
    qed
  qed
  with schema_errors_validated [OF assms(5), of e] show ?thesis by blast
qed

theorem C1_persist_then_notify_witness:
  "req_method (submit ann) = POST \<and> req_path (submit ann) = ''/api/contact''
   \<and> admits limiter_v2 (general_hits server0) env0 (submit ann)
   \<and> admits contactLimiter_v2 (contact_hits server0) env0 (submit ann)
   \<and> validateContactInput_v2 (req_body (submit ann)) = None
   \<and> schema_errors (contact_of env0 (submit ann)) = [] \<and> \<not> store_fails env0
   \<and> store (server_of (serve_v2 env0 (submit ann) server0)) = [contact_of env0 (submit ann)]
   \<and> status (contact_of env0 (submit ann)) = Unread
   \<and> calls (server_of (serve_v2 env0 (submit ann) server0)) =
       [Save (contact_of env0 (submit ann)), SendMail (owner_mail env0),
        SendMail (user_mail env0 ''ann@example.com'')]"
  using C1_persist_then_notify [of "submit ann" server0 env0]
  by (simp add: sample_schema) (simp add: ann_def str_def)

text \<open>
  Claim C2.  When a send fails after the record has been saved, the answer has status 500,
  the record is still in the store, and no send is repeated: the writes are the save, the
  owner's message and, if that one was delivered, the submitter's message, once each.
\<close>

theorem C2_notification_failure:
  assumes "req_method rq = POST" and "req_path rq = ''/api/contact''"
    and "admits limiter_v2 (general_hits sv) e rq"
    and "admits contactLimiter_v2 (contact_hits sv) e rq"
    and "validateContactInput_v2 (req_body rq) = None"
    and "schema_errors (contact_of e rq) = []" and "\<not> store_fails e"
    and "transport e (owner_mail e) \<noteq> None
         \<or> transport e (user_mail e (str (body_email (req_body rq)))) \<noteq> None"
  shows "status_code (response_of (serve_v2 e rq sv)) = 500
       \<and> store (server_of (serve_v2 e rq sv)) = store sv @ [contact_of e rq]
       \<and> calls (server_of (serve_v2 e rq sv)) =
           calls sv @ Save (contact_of e rq) # SendMail (owner_mail e) #
             (if transport e (owner_mail e) = None
              then [SendMail (user_mail e (str (body_email (req_body rq))))] else [])"
proof (cases "transport e (owner_mail e)")
  case (Some m)
  with assms(6,7) show ?thesis
    by (simp add: serve_v2_accepted(1,2) [OF assms(1-5)] contact_handler_v2_owner_fails)
next
  case None
  with assms(8) obtain m where "transport e (user_mail e (str (body_email (req_body rq)))) = Some m"
    by auto
  with None assms(6,7) show ?thesis
    by (simp add: serve_v2_accepted(1,2) [OF assms(1-5)] contact_handler_v2_user_fails)
qed

theorem C2_notification_failure_witness:
  "req_method (submit ann) = POST \<and> req_path (submit ann) = ''/api/contact''
   \<and> admits limiter_v2 (general_hits server0) env_owner_down (submit ann)
   \<and> admits contactLimiter_v2 (contact_hits server0) env_owner_down (submit ann)
   \<and> validateContactInput_v2 (req_body (submit ann)) = None
   \<and> schema_errors (contact_of env_owner_down (submit ann)) = [] \<and> \<not> store_fails env_owner_down
   \<and> transport env_owner_down (owner_mail env_owner_down) \<noteq> None
   \<and> status_code (response_of (serve_v2 env_owner_down (submit ann) server0)) = 500
   \<and> store (server_of (serve_v2 env_owner_down (submit ann) server0)) =
       [contact_of env_owner_down (submit ann)]
   \<and> calls (server_of (serve_v2 env_owner_down (submit ann) server0)) =
       [Save (contact_of env_owner_down (submit ann)), SendMail (owner_mail env_owner_down)]"
  using C2_notification_failure [of "submit ann" server0 env_owner_down]
  by (simp add: sample_schema)

text \<open>
  Claim C3.  A submission that passes the validator, the save and both sends is answered
  with status 201 and the body \<^verbatim>\<open>{success: true, message, data: {id, timestamp}}\<close>,
  where id and timestamp are those of the record the save has just added to the store.
\<close>

theorem C3_created_response:
  assumes "req_method rq = POST" and "req_path rq = ''/api/contact''"
    and "admits limiter_v2 (general_hits sv) e rq"
    and "admits contactLimiter_v2 (contact_hits sv) e rq"
    and "validateContactInput_v2 (req_body rq) = None"
    and "schema_errors (contact_of e rq) = []" and "\<not> store_fails e"
    and "transport e (owner_mail e) = None"
    and "transport e (user_mail e (str (body_email (req_body rq)))) = None"
  shows "response_of (serve_v2 e rq sv) =
           \<lparr>status_code = 201,
            payload = JObj [(''success'', JBool True),
              (''message'', JStr ''Message sent successfully! Thank you for reaching out.''),
              (''data'', JObj [(''id'', JStr (oid (last (store (server_of (serve_v2 e rq sv)))))),
                 (''timestamp'',
                  JDate (createdAt (last (store (server_of (serve_v2 e rq sv))))))])]\<rparr>
       \<and> store (server_of (serve_v2 e rq sv)) = store sv @ [contact_of e rq]
       \<and> oid (last (store (server_of (serve_v2 e rq sv)))) = fresh_id e
       \<and> createdAt (last (store (server_of (serve_v2 e rq sv)))) = now e"
  by (simp add: serve_v2_accepted(1,2) [OF assms(1-5)] contact_handler_v2_ok [OF assms(6-9)]
      contact_of_def new_Contact_def)

theorem C3_created_response_witness:
  "req_method (submit ann) = POST \<and> req_path (submit ann) = ''/api/contact''
   \<and> admits limiter_v2 (general_hits server0) env0 (submit ann)
   \<and> admits contactLimiter_v2 (contact_hits server0) env0 (submit ann)
   \<and> validateContactInput_v2 (req_body (submit ann)) = None
   \<and> schema_errors (contact_of env0 (submit ann)) = [] \<and> \<not> store_fails env0
   \<and> transport env0 (owner_mail env0) = None
   \<and> transport env0 (user_mail env0 (str (body_email (req_body (submit ann))))) = None
   \<and> response_of (serve_v2 env0 (submit ann) server0) =
       \<lparr>status_code = 201,
        payload = JObj [(''success'', JBool True),
          (''message'', JStr ''Message sent successfully! Thank you for reaching out.''),
          (''data'', JObj [(''id'', JStr ''65f0a1b2c3d4e5f6a7b8c9d0''), (''timestamp'', JDate 1000)])]\<rparr>
   \<and> store (server_of (serve_v2 env0 (submit ann) server0)) = [contact_of env0 (submit ann)]"
  using C3_created_response [of "submit ann" server0 env0]
  by (simp add: sample_schema env0_stamp) (simp add: contact_of_def new_Contact_def env0_stamp)

text \<open>
  The first variant keeps no record: a submission it validates and notifies is answered with
  status 200 and \<^verbatim>\<open>{success: true, message}\<close>, and the store is what it was.
\<close>

lemma first_variant_success:
  assumes "req_method rq = POST" and "req_path rq = ''/api/contact''"
    and "admits limiter_v1 (general_hits sv) e rq"
    and "admits contactLimiter_v1 (contact_hits sv) e rq"
    and "validateContactInput_v1 (req_body rq) = None"
    and "transport e (owner_mail e) = None"
    and "transport e (user_mail e (str (body_email (req_body rq)))) = None"
  shows "response_of (serve_v1 e rq sv) =
           \<lparr>status_code = 200,
            payload = JObj [(''success'', JBool True),
              (''message'', JStr ''Message sent successfully. Check your email for confirmation!'')]\<rparr>
       \<and> store (server_of (serve_v1 e rq sv)) = store sv"
  by (simp add: serve_v1_accepted [OF assms(1-5)] contact_handler_v1_ok [OF assms(6,7)])

section \<open>The contact limiter\<close>

lemma hits_after_v2:
  assumes "req_method rq = POST" and "req_path rq = ''/api/contact''"
  shows "general_hits (server_of (serve_v2 e rq sv)) =
           fst (rateLimit limiter_v2 (general_hits sv) (req_ip rq) (now e))"
    and "contact_hits (server_of (serve_v2 e rq sv)) =
           (if admits limiter_v2 (general_hits sv) e rq
            then fst (rateLimit contactLimiter_v2 (contact_hits sv) (req_ip rq) (now e))
            else contact_hits sv)"
  by (simp_all add: serve_v2_contact [OF assms] server_of_def Let_def counted_general_def
      counted_contact_def split: option.splits)

text \<open>A submission that reaches the contact limiter is counted, in the window that is open
  or in a new window of 60 minutes.\<close>

lemma submission_counted:
  assumes "req_method rq = POST" and "req_path rq = ''/api/contact''"
    and "admits limiter_v2 (general_hits sv) e rq"
  shows "counted_submissions (server_of (serve_v2 e rq sv)) (req_ip rq) (now e) =
           counted_submissions sv (req_ip rq) (now e) + 1"
  using assms(3)
  by (auto simp: hits_after_v2 [OF assms(1,2)] rateLimit_def counted_submissions_def
      contactLimiter_v2_def Let_def split: option.splits)

lemma window_opened:
  assumes "req_method rq = POST" and "req_path rq = ''/api/contact''"
    and "admits limiter_v2 (general_hits sv) e rq"
    and "contact_hits sv (req_ip rq) = None"
  shows "contact_hits (server_of (serve_v2 e rq sv)) (req_ip rq) = Some (1, now e + 60 * 60 * 1000)"
  using assms(3,4)
  by (simp add: hits_after_v2 [OF assms(1,2)] rateLimit_def contactLimiter_v2_def)

lemma full_window_rejects:
  assumes "5 \<le> counted_submissions sv (req_ip rq) (now e)"
  shows "\<not> admits contactLimiter_v1 (contact_hits sv) e rq"
    and "\<not> admits contactLimiter_v2 (contact_hits sv) e rq"
  using assms
  by (auto simp: admits_def rateLimit_def counted_submissions_def contactLimiter_v1_def
      contactLimiter_v2_def Let_def split: option.splits if_splits)

text \<open>
  Claim C4.  Once the contact limiter has counted five submissions of an address in the
  window that is open, the next submission of that address is answered with status 429,
  whatever its payload: the contact limiter stands before the validator in the route, so the
  validator is not entered, and nothing is stored or sent.  (When the general limiter
  rejects the request first, the status is 429 as well.)  The window is the limiter's own:
  it opens with the first counted submission and lasts 60 minutes.
\<close>

theorem C4_sixth_submission:
  assumes "req_method rq = POST" and "req_path rq = ''/api/contact''"
    and "5 \<le> counted_submissions sv (req_ip rq) (now e)"
  shows "(status_code (response_of (serve_v1 e rq sv)) = 429
          \<and> ValidateContactInput_v1 \<notin> set (entered (serve_v1 e rq sv))
          \<and> store (server_of (serve_v1 e rq sv)) = store sv
          \<and> calls (server_of (serve_v1 e rq sv)) = calls sv)
       \<and> (status_code (response_of (serve_v2 e rq sv)) = 429
          \<and> ValidateContactInput_v2 \<notin> set (entered (serve_v2 e rq sv))
          \<and> store (server_of (serve_v2 e rq sv)) = store sv
          \<and> calls (server_of (serve_v2 e rq sv)) = calls sv)"
  using full_window_rejects [OF assms(3)]
  by (simp add: serve_v1_contact [OF assms(1,2)] serve_v2_contact [OF assms(1,2)]
      response_of_def server_of_def entered_def Let_def)

lemma counted_after_five:
  "counted_submissions (after_requests_v2 five_submissions server0) ''203.0.113.7'' 3600999 = 5"
  by (simp add: five_submissions_def hits_after_v2 counted_submissions_def rateLimit_def
      admits_def server0_def env0_def limiter_v2_def contactLimiter_v2_def Let_def)

theorem C4_sixth_submission_witness:
  "req_method (submit ann) = POST \<and> req_path (submit ann) = ''/api/contact''
   \<and> 5 \<le> counted_submissions (after_requests_v2 five_submissions server0)
            (req_ip (submit ann)) (now env_late)
   \<and> validateContactInput_v2 (req_body (submit ann)) = None
   \<and> status_code (response_of (serve_v2 env_late (submit ann)
        (after_requests_v2 five_submissions server0))) = 429
   \<and> store (server_of (serve_v2 env_late (submit ann)
        (after_requests_v2 five_submissions server0))) =
      store (after_requests_v2 five_submissions server0)"
  using C4_sixth_submission [of "submit ann" "after_requests_v2 five_submissions server0" env_late]
  by (simp add: counted_after_five env_late_def env0_def)

section \<open>Payloads the validator rejects\<close>

text \<open>
  Claim C5.  A submission in which name, email or message is absent or empty is answered with
  status 400 by the validator, in both variants, and no contact record is created: the
  store and the list of writes are what they were.  The validator runs behind the two rate
  limiters (claim C4), so the status is stated for a request they let through; nothing is
  written whether they do or not.
\<close>

theorem C5_missing_field:
  assumes "req_method rq = POST" and "req_path rq = ''/api/contact''"
    and "falsy (body_name (req_body rq)) \<or> falsy (body_email (req_body rq))
         \<or> falsy (body_message (req_body rq))"
  shows "((admits limiter_v1 (general_hits sv) e rq \<and> admits contactLimiter_v1 (contact_hits sv) e rq
            \<longrightarrow> status_code (response_of (serve_v1 e rq sv)) = 400)
          \<and> store (server_of (serve_v1 e rq sv)) = store sv
          \<and> calls (server_of (serve_v1 e rq sv)) = calls sv)
       \<and> ((admits limiter_v2 (general_hits sv) e rq \<and> admits contactLimiter_v2 (contact_hits sv) e rq
            \<longrightarrow> status_code (response_of (serve_v2 e rq sv)) = 400)
          \<and> store (server_of (serve_v2 e rq sv)) = store sv
          \<and> calls (server_of (serve_v2 e rq sv)) = calls sv)"
proof -
  from assms(3) have "validateContactInput_v1 (req_body rq) \<noteq> None"
    and "validateContactInput_v2 (req_body rq) \<noteq> None"
    by (auto simp: validate_v1_accepts validate_v2_accepts)
  with rejected_v1 [OF assms(1,2)] rejected_v2 [OF assms(1,2)] show ?thesis by blast
qed

theorem C5_missing_field_witness:
  "req_method (submit (ann\<lparr>body_name := None\<rparr>)) = POST
   \<and> req_path (submit (ann\<lparr>body_name := None\<rparr>)) = ''/api/contact''
   \<and> falsy (body_name (req_body (submit (ann\<lparr>body_name := None\<rparr>))))
   \<and> admits limiter_v1 (general_hits server0) env0 (submit (ann\<lparr>body_name := None\<rparr>))
   \<and> admits contactLimiter_v1 (contact_hits server0) env0 (submit (ann\<lparr>body_name := None\<rparr>))
   \<and> admits limiter_v2 (general_hits server0) env0 (submit (ann\<lparr>body_name := None\<rparr>))
   \<and> admits contactLimiter_v2 (contact_hits server0) env0 (submit (ann\<lparr>body_name := None\<rparr>))
   \<and> status_code (response_of (serve_v1 env0 (submit (ann\<lparr>body_name := None\<rparr>)) server0)) = 400
   \<and> status_code (response_of (serve_v2 env0 (submit (ann\<lparr>body_name := None\<rparr>)) server0)) = 400
   \<and> store (server_of (serve_v2 env0 (submit (ann\<lparr>body_name := None\<rparr>)) server0)) = []
   \<and> calls (server_of (serve_v2 env0 (submit (ann\<lparr>body_name := None\<rparr>)) server0)) = []
   \<and> falsy (body_email (req_body (submit (ann\<lparr>body_email := Some []\<rparr>))))
   \<and> status_code (response_of (serve_v1 env0 (submit (ann\<lparr>body_email := Some []\<rparr>)) server0)) = 400
   \<and> status_code (response_of (serve_v2 env0 (submit (ann\<lparr>body_email := Some []\<rparr>)) server0)) = 400
   \<and> store (server_of (serve_v2 env0 (submit (ann\<lparr>body_email := Some []\<rparr>)) server0)) = []"
  using C5_missing_field [of "submit (ann\<lparr>body_name := None\<rparr>)" server0 env0]
    C5_missing_field [of "submit (ann\<lparr>body_email := Some []\<rparr>)" server0 env0]
  by (simp add: falsy_def)

text \<open>
  Claim C6.  A submission whose name is longer than 100 characters, or whose message is
  longer than 1000 characters, is answered with status 400 in both variants; either bound
  alone suffices.  As for C5, the status is that of a request the rate limiters let through.
\<close>

theorem C6_too_long:
  assumes "req_method rq = POST" and "req_path rq = ''/api/contact''"
    and "length (str (body_name (req_body rq))) > 100 \<or> length (str (body_message (req_body rq))) > 1000"
  shows "((admits limiter_v1 (general_hits sv) e rq \<and> admits contactLimiter_v1 (contact_hits sv) e rq
            \<longrightarrow> status_code (response_of (serve_v1 e rq sv)) = 400)
          \<and> store (server_of (serve_v1 e rq sv)) = store sv
          \<and> calls (server_of (serve_v1 e rq sv)) = calls sv)
       \<and> ((admits limiter_v2 (general_hits sv) e rq \<and> admits contactLimiter_v2 (contact_hits sv) e rq
            \<longrightarrow> status_code (response_of (serve_v2 e rq sv)) = 400)
          \<and> store (server_of (serve_v2 e rq sv)) = store sv
          \<and> calls (server_of (serve_v2 e rq sv)) = calls sv)"
proof -
  from assms(3) have "validateContactInput_v1 (req_body rq) \<noteq> None"
    and "validateContactInput_v2 (req_body rq) \<noteq> None"
    by (auto simp: validate_v1_accepts validate_v2_accepts)
  with rejected_v1 [OF assms(1,2)] rejected_v2 [OF assms(1,2)] show ?thesis by blast
qed

theorem C6_too_long_witness:
  "req_method (submit (ann\<lparr>body_name := Some (replicate 101 CHR ''x'')\<rparr>)) = POST
   \<and> req_path (submit (ann\<lparr>body_name := Some (replicate 101 CHR ''x'')\<rparr>)) = ''/api/contact''
   \<and> length (str (body_name (req_body (submit (ann\<lparr>body_name := Some (replicate 101 CHR ''x'')\<rparr>))))) > 100
   \<and> \<not> length (str (body_message (req_body (submit (ann\<lparr>body_name := Some (replicate 101 CHR ''x'')\<rparr>))))) > 1000
   \<and> admits limiter_v1 (general_hits server0) env0 (submit (ann\<lparr>body_name := Some (replicate 101 CHR ''x'')\<rparr>))
   \<and> admits contactLimiter_v1 (contact_hits server0) env0 (submit (ann\<lparr>body_name := Some (replicate 101 CHR ''x'')\<rparr>))
   \<and> admits limiter_v2 (general_hits server0) env0 (submit (ann\<lparr>body_name := Some (replicate 101 CHR ''x'')\<rparr>))
   \<and> admits contactLimiter_v2 (contact_hits server0) env0 (submit (ann\<lparr>body_name := Some (replicate 101 CHR ''x'')\<rparr>))
   \<and> status_code (response_of (serve_v1 env0 (submit (ann\<lparr>body_name := Some (replicate 101 CHR ''x'')\<rparr>)) server0)) = 400
   \<and> status_code (response_of (serve_v2 env0 (submit (ann\<lparr>body_name := Some (replicate 101 CHR ''x'')\<rparr>)) server0)) = 400
   \<and> store (server_of (serve_v2 env0 (submit (ann\<lparr>body_name := Some (replicate 101 CHR ''x'')\<rparr>)) server0)) = []
   \<and> \<not> length (str (body_name (req_body (submit (ann\<lparr>body_message := Some (replicate 1001 CHR ''x'')\<rparr>))))) > 100
   \<and> length (str (body_message (req_body (submit (ann\<lparr>body_message := Some (replicate 1001 CHR ''x'')\<rparr>))))) > 1000
   \<and> status_code (response_of (serve_v1 env0 (submit (ann\<lparr>body_message := Some (replicate 1001 CHR ''x'')\<rparr>)) server0)) = 400
   \<and> status_code (response_of (serve_v2 env0 (submit (ann\<lparr>body_message := Some (replicate 1001 CHR ''x'')\<rparr>)) server0)) = 400
   \<and> store (server_of (serve_v2 env0 (submit (ann\<lparr>body_message := Some (replicate 1001 CHR ''x'')\<rparr>)) server0)) = []"
  using C6_too_long [of "submit (ann\<lparr>body_name := Some (replicate 101 CHR ''x'')\<rparr>)" server0 env0]
    C6_too_long [of "submit (ann\<lparr>body_message := Some (replicate 1001 CHR ''x'')\<rparr>)" server0 env0]
  by (simp add: str_def ann_def)

text \<open>
  Claim C7 describes the final segments as two or three letters.  The pattern has
  \<^verbatim>\<open>\w{2,3}\<close> there, which also takes digits and the underscore: the address
  \<^verbatim>\<open>a@b.12\<close> is not of the shape with letters, and both validators accept it.
\<close>

theorem C7_counterexample:
  "regex_test emailRegex ''a@b.12'' \<and> \<not> email_shape is_letter ''a@b.12''
   \<and> body_email digits_tld = Some ''a@b.12''
   \<and> validateContactInput_v1 digits_tld = None \<and> validateContactInput_v2 digits_tld = None
   \<and> status_code (response_of (serve_v2 env0 (submit digits_tld) server0)) = 201"
proof -
  have "\<not> email_shape is_letter ''a@b.12''"
    using email_pattern_shape [of Letter "''a@b.12''"] by (simp add: in_class_Letter sample_emails)
  moreover have "validateContactInput_v1 digits_tld = None"
    by (simp add: validate_v1_accepts digits_tld_def ann_def falsy_def str_def sample_emails)
  moreover have "status_code (response_of (serve_v2 env0 (submit digits_tld) server0)) = 201"
    by (simp add: serve_v2_accepted(1) contact_handler_v2_ok sample_schema)
  moreover have "body_email digits_tld = Some ''a@b.12''"
    by (simp add: digits_tld_def)
  ultimately show ?thesis by (simp add: sample_emails)
qed

text \<open>
  Claim C7, amended.  With a name and a message that pass, a validator accepts the payload
  exactly when the email has the shape of the specification with word characters (letters,
  digits, underscore) in the final segments; an email that is not of this shape, an absent
  one included, makes the submission return 400 (for a request the rate limiters let
  through).
\<close>

theorem C7_email_shape:
  assumes "req_method rq = POST" and "req_path rq = ''/api/contact''"
    and "\<not> falsy (body_name (req_body rq))" and "length (str (body_name (req_body rq))) \<le> 100"
    and "\<not> falsy (body_message (req_body rq))" and "length (str (body_message (req_body rq))) \<le> 1000"
  shows "(validateContactInput_v1 (req_body rq) = None
            \<longleftrightarrow> email_shape is_word (str (body_email (req_body rq))))
       \<and> (validateContactInput_v2 (req_body rq) = None
            \<longleftrightarrow> email_shape is_word (str (body_email (req_body rq))))
       \<and> (\<not> email_shape is_word (str (body_email (req_body rq))) \<longrightarrow>
            (admits limiter_v1 (general_hits sv) e rq \<and> admits contactLimiter_v1 (contact_hits sv) e rq
               \<longrightarrow> status_code (response_of (serve_v1 e rq sv)) = 400)
          \<and> (admits limiter_v2 (general_hits sv) e rq \<and> admits contactLimiter_v2 (contact_hits sv) e rq
               \<longrightarrow> status_code (response_of (serve_v2 e rq sv)) = 400))"
proof -
  have v1: "validateContactInput_v1 (req_body rq) = None
      \<longleftrightarrow> email_shape is_word (str (body_email (req_body rq)))"
    using assms(3-6) email_accepted_iff [of "body_email (req_body rq)"]
    by (auto simp: validate_v1_accepts)
  have v2: "validateContactInput_v2 (req_body rq) = None
      \<longleftrightarrow> email_shape is_word (str (body_email (req_body rq)))"
    using assms(3-6) email_accepted_iff [of "body_email (req_body rq)"]
    by (auto simp: validate_v2_accepts)
  from v1 v2 rejected_v1 [OF assms(1,2), of sv e] rejected_v2 [OF assms(1,2), of sv e]
  show ?thesis by blast
qed

theorem C7_email_shape_witness:
  "req_method (submit no_at) = POST \<and> req_path (submit no_at) = ''/api/contact''
   \<and> \<not> falsy (body_name (req_body (submit no_at)))
   \<and> length (str (body_name (req_body (submit no_at)))) \<le> 100
   \<and> \<not> falsy (body_message (req_body (submit no_at)))
   \<and> length (str (body_message (req_body (submit no_at)))) \<le> 1000
   \<and> \<not> email_shape is_word (str (body_email (req_body (submit no_at))))
   \<and> admits limiter_v1 (general_hits server0) env0 (submit no_at)
   \<and> admits contactLimiter_v1 (contact_hits server0) env0 (submit no_at)
   \<and> admits limiter_v2 (general_hits server0) env0 (submit no_at)
   \<and> admits contactLimiter_v2 (contact_hits server0) env0 (submit no_at)
   \<and> validateContactInput_v1 (req_body (submit no_at)) \<noteq> None
   \<and> validateContactInput_v2 (req_body (submit no_at)) \<noteq> None
   \<and> status_code (response_of (serve_v1 env0 (submit no_at) server0)) = 400
   \<and> status_code (response_of (serve_v2 env0 (submit no_at) server0)) = 400"
proof -
  from sample_emails(3) have "\<not> email_shape is_word (str (body_email (req_body (submit no_at))))"
    by (simp add: emailRegex_shape no_at_def str_def)
  with C7_email_shape [of "submit no_at" server0 env0] show ?thesis
    by (simp add: no_at_def ann_def falsy_def str_def)
qed

section \<open>The administrative routes\<close>

lemma serve_v2_list:
  assumes "req_method rq = GET" and "req_path rq = ''/api/contacts''"
  shows "serve_v2 e rq sv =
     (if admits limiter_v2 (general_hits sv) e rq
      then (fst (get_contacts e rq (counted_general limiter_v2 e rq sv)),
            snd (get_contacts e rq (counted_general limiter_v2 e rq sv)),
            [Limiter_v2, GetContacts_v2])
      else (too_many limiter_v2, counted_general limiter_v2 e rq sv, [Limiter_v2]))"
  using assms
  by (simp add: serve_v2_def app_v2_def limit_general_eq method_matches_def answer_def)

text \<open>The length in binary, and the numerals that are read without rounding.\<close>

declare bits.simps [simp del]

lemma bits_bounds: "0 < n \<Longrightarrow> 2 ^ (bits n - 1) \<le> n \<and> n < 2 ^ bits n"
proof (induction n rule: bits.induct)
  case (1 n)
  show ?case
  proof (cases "n div 2 = 0")
    case True
    with "1.prems" have "n = 1" by (cases n) auto
    then show ?thesis by (simp add: bits.simps [of "Suc 0"] bits.simps [of 0])
  next
    case False
    with "1.IH" "1.prems" have ih: "2 ^ (bits (n div 2) - 1) \<le> n div 2" "n div 2 < 2 ^ bits (n div 2)"
      by simp_all
    from False have pos: "0 < bits (n div 2)" by (simp add: bits.simps [of "n div 2"])
    have b: "bits n = Suc (bits (n div 2))" using "1.prems" by (simp add: bits.simps [of n])
    from pos have "(2::nat) ^ bits (n div 2) = 2 * 2 ^ (bits (n div 2) - 1)"
      by (cases "bits (n div 2)") simp_all
    with ih show ?thesis unfolding b by simp linarith
  qed
qed

lemma bits_eqI:
  assumes "2 ^ k \<le> n" and "n < 2 ^ Suc k"
  shows "bits n = Suc k"
proof -
  from assms(1) have pos: "0 < n" by (cases n) auto
  from bits_bounds [OF pos] have lo: "(2::nat) ^ (bits n - 1) \<le> n" and hi: "n < 2 ^ bits n" by simp_all
  from assms(1) hi have "(2::nat) ^ k < 2 ^ bits n" by linarith
  then have "k < bits n" by (simp add: power_strict_increasing_iff)
  moreover from lo assms(2) have "(2::nat) ^ (bits n - 1) < 2 ^ Suc k" by linarith
  then have "bits n - 1 < Suc k" by (rule power_less_imp_less_exp [rotated]) simp
  ultimately show ?thesis by linarith
qed

lemma to_double_exact: "n < 2 ^ 53 \<Longrightarrow> to_double n = n"
  by (simp add: to_double_def)

lemma to_double_large:
  assumes "2 ^ 53 \<le> n"
  shows "2 ^ 53 \<le> to_double n"
proof -
  define s where "s = bits n - 53"
  define q where "q = n div 2 ^ s"
  from assms have pos: "0 < n" by (cases n) auto
  from bits_bounds [OF pos] have lo: "(2::nat) ^ (bits n - 1) \<le> n" and hi: "n < 2 ^ bits n" by simp_all
  from assms hi have "(2::nat) ^ 53 < 2 ^ bits n" by linarith
  then have b: "53 < bits n" by (simp only: power_strict_increasing_iff)
  then have s: "bits n - 1 = 52 + s" "0 < s" by (simp_all add: s_def)
  from lo have "(2::nat) ^ (52 + s) \<le> n" by (simp only: s(1))
  then have "(2::nat) ^ 52 * 2 ^ s \<le> n" by (simp only: power_add)
  then have "2 ^ 52 \<le> q" unfolding q_def by (simp add: less_eq_div_iff_mult_less_eq)
  then have "2 ^ 52 * (2::nat) ^ s \<le> q * 2 ^ s" by simp
  moreover from s(2) have "(2::nat) ^ 1 \<le> 2 ^ s" by (intro power_increasing) simp_all
  then have "(2::nat) ^ 53 \<le> 2 ^ 52 * 2 ^ s" by simp
  ultimately have "2 ^ 53 \<le> q * 2 ^ s" by linarith
  moreover have "q * 2 ^ s \<le> (q + 1) * 2 ^ s" by simp
  ultimately show ?thesis
    using assms unfolding to_double_def Let_def s_def [symmetric] q_def [symmetric]
    by (simp del: power_numeral)
qed

text \<open>
  Above \<open>2\<^sup>5\<^sup>3\<close> a numeral is not always read as itself: \<open>2\<^sup>5\<^sup>3 + 1\<close> is read as
  \<open>2\<^sup>5\<^sup>3\<close>, and \<open>2\<^sup>5\<^sup>3 + 3\<close> as \<open>2\<^sup>5\<^sup>3 + 4\<close>.
\<close>

lemma to_double_rounds:
  "to_double 9007199254740993 = 9007199254740992"
  "to_double 9007199254740995 = 9007199254740996"
proof -
  have "bits 9007199254740993 = Suc 53" by (rule bits_eqI) simp_all
  then show "to_double 9007199254740993 = 9007199254740992" by (simp add: to_double_def)
  have "bits 9007199254740995 = Suc 53" by (rule bits_eqI) simp_all
  then show "to_double 9007199254740995 = 9007199254740996" by (simp add: to_double_def)
qed

lemma drop_to_double:
  assumes "length xs < 2 ^ 53"
  shows "drop (to_double n) xs = drop n xs"
proof (cases "n < 2 ^ 53")
  case True
  then show ?thesis by (simp add: to_double_exact)
next
  case False
  then have "2 ^ 53 \<le> n" by simp
  with to_double_large [of n] assms show ?thesis by simp
qed

text \<open>
  Rounding to the nearest double moves a quotient by at most its \<open>2\<^sup>-\<^sup>5\<^sup>3\<close>-th part and
  leaves a quotient that is an integer below \<open>2\<^sup>5\<^sup>3\<close> where it is.  For a total below
  \<open>2\<^sup>5\<^sup>3\<close> the ceiling of the rounded quotient is therefore the ceiling of the exact one.
\<close>

lemma ceiling_rounded_quotient:
  fixes t l :: nat and y :: real
  assumes "0 < l" and "t < 2 ^ 53"
    and near: "\<bar>y - real t / real l\<bar> \<le> real t / real l / 2 ^ 53"
    and exact: "l dvd t \<Longrightarrow> y = real t / real l"
  shows "\<lceil>y\<rceil> = \<lceil>real t / real l\<rceil>"
proof (cases "l dvd t")
  case True
  with exact show ?thesis by simp
next
  case False
  define q where "q = t div l"
  define r where "r = t mod l"
  from False have r: "1 \<le> r" "r + 1 \<le> l" using assms(1)
    by (simp_all add: r_def Suc_leI mod_greater_zero_iff_not_dvd)
  have t: "t = q * l + r" by (simp add: q_def r_def)
  have L: "0 < real l" using assms(1) by simp
  have x: "real t / real l = real q + real r / real l"
    using assms(1) by (simp add: t field_simps)
  from assms(2) have "real t < 2 ^ 53" by (metis of_nat_less_iff of_nat_numeral of_nat_power)
  then have "real t / 2 ^ 53 < 1" by simp
  then have "real t / 2 ^ 53 / real l < 1 / real l" using L by (rule divide_strict_right_mono)
  then have e: "real t / real l / 2 ^ 53 < 1 / real l" by (simp add: field_simps)
  from near e have lo: "real t / real l - 1 / real l < y" and hi: "y < real t / real l + 1 / real l"
    by linarith+
  have "real q \<le> real q + (real r - 1) / real l" using r(1) L by simp
  also have "\<dots> = real t / real l - 1 / real l" by (simp add: x diff_divide_distrib)
  finally have a: "real q < y" using lo by linarith
  have "real t / real l + 1 / real l = real q + (real r + 1) / real l"
    by (simp add: x add_divide_distrib)
  also have "(real r + 1) / real l \<le> 1" using r(2) L by (simp add: field_simps)
  finally have b: "y < real q + 1" using hi by linarith
  from a b have cy: "\<lceil>y\<rceil> = int q + 1" by (simp add: ceiling_eq_iff)
  have "real q < real t / real l" using r(1) L by (simp add: x)
  moreover have "real t / real l \<le> real q + 1" using r(2) L
    by (simp add: x field_simps)
  ultimately have "\<lceil>real t / real l\<rceil> = int q + 1" by (simp add: ceiling_eq_iff)
  with cy show ?thesis by simp
qed

text \<open>The order of the list is the order the store's sort gives.\<close>

lemma put_by_time_insort: "put_by_time c cs = insort_key (\<lambda>c. - int (createdAt c)) c cs"
  by (induction cs) simp_all

lemma most_recent_first_sort: "most_recent_first cs = sort_createdAt_desc cs"
  by (induction cs) (simp_all add: most_recent_first_def sort_createdAt_desc_def put_by_time_insort)

lemma status_word_name: "status_word s = status_name s"
  by (simp add: status_word_def status_name_def)

lemma length_most_recent_first [simp]: "length (most_recent_first cs) = length cs"
  by (simp add: most_recent_first_sort sort_createdAt_desc_def)

lemma length_matching: "length (matching rq cs) \<le> length cs"
  by (simp add: matching_def split: option.splits)

lemma get_contacts_ok:
  assumes "\<not> store_fails e" and "1 \<le> page_of rq" and "page_of rq < 2 ^ 53"
    and "1 \<le> pageSize_of rq" and "pageSize_of rq < 2 ^ 53" and "length (store sv) < 2 ^ 53"
  shows "get_contacts e rq sv =
     (\<lparr>status_code = 200,
       payload = JObj [(''success'', JBool True),
         (''data'', JArr (map projected (shown rq (store sv)))),
         (''pagination'', JObj [(''page'', JNum (int (page_of rq))),
            (''limit'', JNum (int (pageSize_of rq))),
            (''total'', JNum (int (length (matching rq (store sv))))),
            (''pages'', JNum \<lceil>real (length (matching rq (store sv))) / real (pageSize_of rq)\<rceil>)])]\<rparr>,
      sv)"
proof -
  have m: "(if (case query_status rq of None \<Rightarrow> ''all'' | Some s \<Rightarrow> s) \<noteq> ''all''
            then filter (\<lambda>c. status_name (status c) = (case query_status rq of None \<Rightarrow> ''all'' | Some s \<Rightarrow> s))
                   (store sv)
            else store sv) = matching rq (store sv)"
    by (simp add: matching_def status_word_name split: option.splits)
  have p: "(case query_page rq of None \<Rightarrow> 1 | Some p \<Rightarrow> to_double p) = page_of rq"
    using assms(3) by (simp add: page_of_def to_double_exact split: option.splits)
  have l: "(case query_limit rq of None \<Rightarrow> 10 | Some l \<Rightarrow> to_double l) = pageSize_of rq"
    using assms(5) by (simp add: pageSize_of_def to_double_exact split: option.splits)
  have q: "to_double (page_of rq - 1) = page_of rq - 1"
    using assms(3) by (simp add: to_double_exact)
  have "length (most_recent_first (matching rq (store sv))) < 2 ^ 53"
    using length_matching [of rq "store sv"] assms(6) by simp
  then have d: "drop (to_double ((page_of rq - 1) * pageSize_of rq)) (most_recent_first (matching rq (store sv)))
      = drop ((page_of rq - 1) * pageSize_of rq) (most_recent_first (matching rq (store sv)))"
    by (rule drop_to_double)
  have j: "(\<lambda>c. JObj (select_without [''ipAddress'', ''userAgent''] (toJSON c))) = projected"
    by (rule ext) (simp add: projected_def select_without_def toJSON_def status_word_name)
  from assms(1,2,4) show ?thesis
    unfolding get_contacts_def Let_def m p l q j most_recent_first_sort [symmetric] d
    by (simp add: shown_def)
qed

lemma most_recent_first_sorted:
  "sorted_wrt (\<lambda>a b. createdAt b \<le> createdAt a) (most_recent_first cs)"
proof -
  have "sorted (map (\<lambda>c. - int (createdAt c)) (sort_key (\<lambda>c. - int (createdAt c)) cs))"
    by (rule sorted_sort_key)
  then show ?thesis by (simp add: most_recent_first_sort sort_createdAt_desc_def sorted_map)
qed

lemma most_recent_first_mset: "mset (most_recent_first cs) = mset cs"
  by (simp add: most_recent_first_sort sort_createdAt_desc_def)

lemma take_drop_nth:
  "m + n \<le> length xs \<Longrightarrow> take n (drop m xs) = map (\<lambda>i. xs ! i) [m..<m + n]"
  by (rule nth_equalityI) simp_all

text \<open>
  Claim C8.  The list operation answers with the page of the matching records, from the
  most recent to the oldest (records with the same time keep their order of insertion
  here; the database does not fix it), each with its id, name, email, message, time and
  status and without \<^verbatim>\<open>ipAddress\<close> and \<^verbatim>\<open>userAgent\<close>; pages count from 1, page and
  page size default to 1 and 10, and \<^verbatim>\<open>pages\<close> is the ceiling of total / page size.
  The ordered list is sorted by \<^verbatim>\<open>createdAt\<close> descending and holds the matching records,
  each as often as the store does.  Over 25 records page 2 of size 10 is the records 11 to
  20 of that order, with 3 pages.  This is for a page and a page size of at least 1, a
  page, a page size and a store below \<open>2\<^sup>5\<^sup>3\<close>, where the language's numbers are exact,
  and a database that answers.
\<close>

theorem C8_list:
  assumes "req_method rq = GET" and "req_path rq = ''/api/contacts''"
    and "admits limiter_v2 (general_hits sv) e rq" and "\<not> store_fails e"
    and "1 \<le> page_of rq" and "page_of rq < 2 ^ 53"
    and "1 \<le> pageSize_of rq" and "pageSize_of rq < 2 ^ 53"
    and "length (store sv) < 2 ^ 53"
  shows "response_of (serve_v2 e rq sv) =
           \<lparr>status_code = 200,
            payload = JObj [(''success'', JBool True),
              (''data'', JArr (map projected (shown rq (store sv)))),
              (''pagination'', JObj [(''page'', JNum (int (page_of rq))),
                 (''limit'', JNum (int (pageSize_of rq))),
                 (''total'', JNum (int (length (matching rq (store sv))))),
                 (''pages'',
                  JNum \<lceil>real (length (matching rq (store sv))) / real (pageSize_of rq)\<rceil>)])]\<rparr>
       \<and> shown rq (store sv) =
           take (pageSize_of rq)
             (drop ((page_of rq - 1) * pageSize_of rq) (most_recent_first (matching rq (store sv))))
       \<and> sorted_wrt (\<lambda>a b. createdAt b \<le> createdAt a) (most_recent_first (matching rq (store sv)))
       \<and> mset (most_recent_first (matching rq (store sv))) = mset (matching rq (store sv))
       \<and> (query_status rq = None \<or> query_status rq = Some ''all'' \<longrightarrow>
            matching rq (store sv) = store sv)
       \<and> (\<forall>w. query_status rq = Some w \<and> w \<noteq> ''all'' \<longrightarrow>
            matching rq (store sv) =
              filter (\<lambda>c. (case status c of Unread \<Rightarrow> ''unread'' | Read \<Rightarrow> ''read''
                                | Replied \<Rightarrow> ''replied'') = w) (store sv))
       \<and> (\<forall>c. projected c =
            JObj [(''_id'', JStr (oid c)), (''name'', JStr (name c)), (''email'', JStr (email c)),
              (''message'', JStr (message c)), (''createdAt'', JDate (createdAt c)),
              (''status'', JStr (case status c of Unread \<Rightarrow> ''unread'' | Read \<Rightarrow> ''read''
                                   | Replied \<Rightarrow> ''replied''))])
       \<and> (\<forall>c. \<exists>kvs. projected c = JObj kvs \<and> ''ipAddress'' \<notin> fst ` set kvs
              \<and> ''userAgent'' \<notin> fst ` set kvs)
       \<and> (query_page rq = None \<longrightarrow> page_of rq = 1) \<and> (query_limit rq = None \<longrightarrow> pageSize_of rq = 10)
       \<and> (length (store sv) = 25 \<and> query_page rq = Some 2 \<and> query_limit rq = Some 10
            \<and> query_status rq = None \<longrightarrow>
              shown rq (store sv) = map (\<lambda>i. most_recent_first (store sv) ! i) [10..<20]
            \<and> \<lceil>real (length (matching rq (store sv))) / real (pageSize_of rq)\<rceil> = 3)
       \<and> store (server_of (serve_v2 e rq sv)) = store sv"
proof -
  have "response_of (serve_v2 e rq sv) = fst (get_contacts e rq (counted_general limiter_v2 e rq sv))"
    and "server_of (serve_v2 e rq sv) = snd (get_contacts e rq (counted_general limiter_v2 e rq sv))"
    using assms(3) by (simp_all add: serve_v2_list [OF assms(1,2)] response_of_def server_of_def)
  then have r: "response_of (serve_v2 e rq sv) =
           \<lparr>status_code = 200,
            payload = JObj [(''success'', JBool True),
              (''data'', JArr (map projected (shown rq (store sv)))),
              (''pagination'', JObj [(''page'', JNum (int (page_of rq))),
                 (''limit'', JNum (int (pageSize_of rq))),
                 (''total'', JNum (int (length (matching rq (store sv))))),
                 (''pages'',
                  JNum \<lceil>real (length (matching rq (store sv))) / real (pageSize_of rq)\<rceil>)])]\<rparr>"
    and s: "store (server_of (serve_v2 e rq sv)) = store sv"
    using assms(9) by (simp_all add: get_contacts_ok [OF assms(4-8)])
  have k: "\<exists>kvs. projected c = JObj kvs \<and> ''ipAddress'' \<notin> fst ` set kvs
      \<and> ''userAgent'' \<notin> fst ` set kvs" for c
    by (simp add: projected_def)
  have c: "\<lceil>real (25::nat) / real (10::nat)\<rceil> = 3" by (simp add: ceiling_eq_iff)
  have t: "shown rq (store sv) = map (\<lambda>i. most_recent_first (store sv) ! i) [10..<20]
      \<and> \<lceil>real (length (matching rq (store sv))) / real (pageSize_of rq)\<rceil> = 3"
    if "length (store sv) = 25" "query_page rq = Some 2" "query_limit rq = Some 10"
      "query_status rq = None"
  proof -
    from that have "shown rq (store sv) = take 10 (drop 10 (most_recent_first (store sv)))"
      by (simp add: shown_def page_of_def pageSize_of_def matching_def)
    also have "\<dots> = map (\<lambda>i. most_recent_first (store sv) ! i) [10..<10 + 10]"
      using that(1) by (intro take_drop_nth) simp
    finally show ?thesis using that c by (simp add: matching_def pageSize_of_def)
  qed
  have f: "matching rq (store sv) =
      filter (\<lambda>c. (case status c of Unread \<Rightarrow> ''unread'' | Read \<Rightarrow> ''read''
                     | Replied \<Rightarrow> ''replied'') = w) (store sv)"
    if "query_status rq = Some w \<and> w \<noteq> ''all''" for w
    using that by (simp add: matching_def status_word_def)
  have a: "query_status rq = None \<or> query_status rq = Some ''all'' \<longrightarrow>
      matching rq (store sv) = store sv"
    by (auto simp: matching_def)
  have d: "(query_page rq = None \<longrightarrow> page_of rq = 1) \<and> (query_limit rq = None \<longrightarrow> pageSize_of rq = 10)"
    by (simp add: page_of_def pageSize_of_def)
  have j: "projected c =
            JObj [(''_id'', JStr (oid c)), (''name'', JStr (name c)), (''email'', JStr (email c)),
              (''message'', JStr (message c)), (''createdAt'', JDate (createdAt c)),
              (''status'', JStr (case status c of Unread \<Rightarrow> ''unread'' | Read \<Rightarrow> ''read''
                                   | Replied \<Rightarrow> ''replied''))]" for c
    by (simp add: projected_def status_word_def)
  from r s k t f a d j most_recent_first_sorted [of "matching rq (store sv)"]
    most_recent_first_mset [of "matching rq (store sv)"]
  show ?thesis unfolding shown_def [of rq "store sv", symmetric] by blast
qed

text \<open>
  The store of 25 records: each is Ann's record with an id and a time of its own, and the
  second page of ten holds those of the times 1014 down to 1005.
\<close>

lemma stored_ann_fields:
  "name stored_ann = ''Ann''" "email stored_ann = ''ann@example.com''" "message stored_ann = ''Hi''"
  "status stored_ann = Unread"
  by (simp_all add: stored_ann_def contact_of_def new_Contact_def ann_def str_def sample_trims
      lowercase_def to_lower_def trim_def is_space_def)

lemma page_two_of_25:
  "map projected (shown (list_page (Some 2) (Some 10)) contacts25) =
             [JObj [(''_id'', JStr ''aaaaaaaaaaaaaaa''), (''name'', JStr ''Ann''), (''email'', JStr ''ann@example.com''),
                (''message'', JStr ''Hi''), (''createdAt'', JDate 1014), (''status'', JStr ''unread'')],
              JObj [(''_id'', JStr ''aaaaaaaaaaaaaa''), (''name'', JStr ''Ann''), (''email'', JStr ''ann@example.com''),
                (''message'', JStr ''Hi''), (''createdAt'', JDate 1013), (''status'', JStr ''unread'')],
              JObj [(''_id'', JStr ''aaaaaaaaaaaaa''), (''name'', JStr ''Ann''), (''email'', JStr ''ann@example.com''),
                (''message'', JStr ''Hi''), (''createdAt'', JDate 1012), (''status'', JStr ''unread'')],
              JObj [(''_id'', JStr ''aaaaaaaaaaaa''), (''name'', JStr ''Ann''), (''email'', JStr ''ann@example.com''),
                (''message'', JStr ''Hi''), (''createdAt'', JDate 1011), (''status'', JStr ''unread'')],
              JObj [(''_id'', JStr ''aaaaaaaaaaa''), (''name'', JStr ''Ann''), (''email'', JStr ''ann@example.com''),
                (''message'', JStr ''Hi''), (''createdAt'', JDate 1010), (''status'', JStr ''unread'')],
              JObj [(''_id'', JStr ''aaaaaaaaaa''), (''name'', JStr ''Ann''), (''email'', JStr ''ann@example.com''),
                (''message'', JStr ''Hi''), (''createdAt'', JDate 1009), (''status'', JStr ''unread'')],
              JObj [(''_id'', JStr ''aaaaaaaaa''), (''name'', JStr ''Ann''), (''email'', JStr ''ann@example.com''),
                (''message'', JStr ''Hi''), (''createdAt'', JDate 1008), (''status'', JStr ''unread'')],
              JObj [(''_id'', JStr ''aaaaaaaa''), (''name'', JStr ''Ann''), (''email'', JStr ''ann@example.com''),
                (''message'', JStr ''Hi''), (''createdAt'', JDate 1007), (''status'', JStr ''unread'')],
              JObj [(''_id'', JStr ''aaaaaaa''), (''name'', JStr ''Ann''), (''email'', JStr ''ann@example.com''),
                (''message'', JStr ''Hi''), (''createdAt'', JDate 1006), (''status'', JStr ''unread'')],
              JObj [(''_id'', JStr ''aaaaaa''), (''name'', JStr ''Ann''), (''email'', JStr ''ann@example.com''),
                (''message'', JStr ''Hi''), (''createdAt'', JDate 1005), (''status'', JStr ''unread'')]]"
  by (simp add: shown_def page_of_def pageSize_of_def matching_def list_page_def
      most_recent_first_def contacts25_def projected_def status_word_def stored_ann_fields)
    (simp add: eval_nat_numeral)

lemma times_of_25:
  "map createdAt (most_recent_first contacts25) =
     [1024, 1023, 1022, 1021, 1020, 1019, 1018, 1017, 1016, 1015, 1014, 1013, 1012, 1011, 1010, 1009, 1008, 1007, 1006, 1005, 1004, 1003, 1002, 1001, 1000]"
  by (simp add: most_recent_first_def contacts25_def)

theorem C8_list_witness:
  "req_method (list_page (Some 2) (Some 10)) = GET
   \<and> req_path (list_page (Some 2) (Some 10)) = ''/api/contacts''
   \<and> admits limiter_v2 (general_hits server25) env0 (list_page (Some 2) (Some 10))
   \<and> \<not> store_fails env0
   \<and> 1 \<le> page_of (list_page (Some 2) (Some 10)) \<and> page_of (list_page (Some 2) (Some 10)) < 2 ^ 53
   \<and> 1 \<le> pageSize_of (list_page (Some 2) (Some 10)) \<and> pageSize_of (list_page (Some 2) (Some 10)) < 2 ^ 53
   \<and> length (store server25) < 2 ^ 53 \<and> length (store server25) = 25
   \<and> response_of (serve_v2 env0 (list_page (Some 2) (Some 10)) server25) =
        \<lparr>status_code = 200,
         payload = JObj [(''success'', JBool True),
           (''data'', JArr
             [JObj [(''_id'', JStr ''aaaaaaaaaaaaaaa''), (''name'', JStr ''Ann''), (''email'', JStr ''ann@example.com''),
                (''message'', JStr ''Hi''), (''createdAt'', JDate 1014), (''status'', JStr ''unread'')],
              JObj [(''_id'', JStr ''aaaaaaaaaaaaaa''), (''name'', JStr ''Ann''), (''email'', JStr ''ann@example.com''),
                (''message'', JStr ''Hi''), (''createdAt'', JDate 1013), (''status'', JStr ''unread'')],
              JObj [(''_id'', JStr ''aaaaaaaaaaaaa''), (''name'', JStr ''Ann''), (''email'', JStr ''ann@example.com''),
                (''message'', JStr ''Hi''), (''createdAt'', JDate 1012), (''status'', JStr ''unread'')],
              JObj [(''_id'', JStr ''aaaaaaaaaaaa''), (''name'', JStr ''Ann''), (''email'', JStr ''ann@example.com''),
                (''message'', JStr ''Hi''), (''createdAt'', JDate 1011), (''status'', JStr ''unread'')],
              JObj [(''_id'', JStr ''aaaaaaaaaaa''), (''name'', JStr ''Ann''), (''email'', JStr ''ann@example.com''),
                (''message'', JStr ''Hi''), (''createdAt'', JDate 1010), (''status'', JStr ''unread'')],
              JObj [(''_id'', JStr ''aaaaaaaaaa''), (''name'', JStr ''Ann''), (''email'', JStr ''ann@example.com''),
                (''message'', JStr ''Hi''), (''createdAt'', JDate 1009), (''status'', JStr ''unread'')],
              JObj [(''_id'', JStr ''aaaaaaaaa''), (''name'', JStr ''Ann''), (''email'', JStr ''ann@example.com''),
                (''message'', JStr ''Hi''), (''createdAt'', JDate 1008), (''status'', JStr ''unread'')],
              JObj [(''_id'', JStr ''aaaaaaaa''), (''name'', JStr ''Ann''), (''email'', JStr ''ann@example.com''),
                (''message'', JStr ''Hi''), (''createdAt'', JDate 1007), (''status'', JStr ''unread'')],
              JObj [(''_id'', JStr ''aaaaaaa''), (''name'', JStr ''Ann''), (''email'', JStr ''ann@example.com''),
                (''message'', JStr ''Hi''), (''createdAt'', JDate 1006), (''status'', JStr ''unread'')],
              JObj [(''_id'', JStr ''aaaaaa''), (''name'', JStr ''Ann''), (''email'', JStr ''ann@example.com''),
                (''message'', JStr ''Hi''), (''createdAt'', JDate 1005), (''status'', JStr ''unread'')]]),
           (''pagination'', JObj [(''page'', JNum 2), (''limit'', JNum 10), (''total'', JNum 25),
              (''pages'', JNum 3)])]\<rparr>
   \<and> map createdAt (most_recent_first (store server25)) =
        [1024, 1023, 1022, 1021, 1020, 1019, 1018, 1017, 1016, 1015, 1014, 1013, 1012, 1011, 1010, 1009, 1008, 1007, 1006, 1005, 1004, 1003, 1002, 1001, 1000]
   \<and> store (server_of (serve_v2 env0 (list_page (Some 2) (Some 10)) server25)) = store server25"
proof -
  have a: "admits limiter_v2 (general_hits server25) env0 (list_page (Some 2) (Some 10))"
    by (simp add: server25_def server0_def admits_def rateLimit_def limiter_v2_def)
  have l: "length (store server25) = 25" by (simp add: server25_def contacts25_def)
  have q: "req_method (list_page (Some 2) (Some 10)) = GET"
    "req_path (list_page (Some 2) (Some 10)) = ''/api/contacts''"
    "query_page (list_page (Some 2) (Some 10)) = Some 2"
    "query_limit (list_page (Some 2) (Some 10)) = Some 10"
    "query_status (list_page (Some 2) (Some 10)) = None"
    by (simp_all add: list_page_def)
  have s: "store server25 = contacts25" by (simp add: server25_def)
  have m: "matching (list_page (Some 2) (Some 10)) contacts25 = contacts25"
    by (simp add: matching_def q)
  from C8_list [of "list_page (Some 2) (Some 10)" server25 env0] a l q
  have "response_of (serve_v2 env0 (list_page (Some 2) (Some 10)) server25) =
        \<lparr>status_code = 200,
         payload = JObj [(''success'', JBool True),
           (''data'', JArr (map projected (shown (list_page (Some 2) (Some 10)) contacts25))),
           (''pagination'', JObj [(''page'', JNum 2), (''limit'', JNum 10), (''total'', JNum 25),
              (''pages'', JNum 3)])]\<rparr>
     \<and> store (server_of (serve_v2 env0 (list_page (Some 2) (Some 10)) server25)) = store server25"
    by (simp add: page_of_def pageSize_of_def s m del: ceiling_divide_eq_div)
  with a l q times_of_25 show ?thesis
    by (simp add: page_of_def pageSize_of_def s page_two_of_25)
qed

text \<open>
  A page above \<open>2\<^sup>5\<^sup>3\<close> is answered with the number it is read as: for the numeral
  \<open>2\<^sup>5\<^sup>3 + 1\<close> the response names the page \<open>2\<^sup>5\<^sup>3\<close>, and the page is empty.
\<close>

lemma page_above_exact_numbers:
  "response_of (serve_v2 env0 (list_page (Some 9007199254740993) (Some 10)) server25) =
     \<lparr>status_code = 200,
      payload = JObj [(''success'', JBool True), (''data'', JArr []),
        (''pagination'', JObj [(''page'', JNum 9007199254740992), (''limit'', JNum 10),
           (''total'', JNum 25), (''pages'', JNum 3)])]\<rparr>"
proof -
  let ?rq = "list_page (Some 9007199254740993) (Some 10)"
  have a: "admits limiter_v2 (general_hits server25) env0 ?rq"
    by (simp add: server25_def server0_def admits_def rateLimit_def limiter_v2_def)
  have q: "req_method ?rq = GET" "req_path ?rq = ''/api/contacts''"
    "query_page ?rq = Some 9007199254740993" "query_limit ?rq = Some 10" "query_status ?rq = None"
    by (simp_all add: list_page_def)
  have l: "length contacts25 = 25" by (simp add: contacts25_def)
  have s: "store (counted_general limiter_v2 env0 ?rq server25) = contacts25"
    by (simp add: counted_general_def server25_def)
  have t: "to_double 10 = 10" "to_double 9007199254740991 = 9007199254740991"
    by (simp_all add: to_double_exact)
  have "2 ^ 53 \<le> to_double 90071992547409910" by (rule to_double_large) simp
  then have "length (sort_createdAt_desc contacts25) \<le> to_double 90071992547409910"
    by (simp add: sort_createdAt_desc_def l)
  then have d: "drop (to_double 90071992547409910) (sort_createdAt_desc contacts25) = []"
    by simp
  have c: "\<lceil>real (25::nat) / real (10::nat)\<rceil> = 3" by (simp add: ceiling_eq_iff)
  have "get_contacts env0 ?rq (counted_general limiter_v2 env0 ?rq server25) =
     (\<lparr>status_code = 200,
       payload = JObj [(''success'', JBool True), (''data'', JArr []),
        (''pagination'', JObj [(''page'', JNum 9007199254740992), (''limit'', JNum 10),
           (''total'', JNum 25), (''pages'', JNum 3)])]\<rparr>,
      counted_general limiter_v2 env0 ?rq server25)"
    unfolding get_contacts_def Let_def q s
    using c by (simp add: to_double_rounds t d l del: ceiling_divide_eq_div)
  with a show ?thesis
    by (simp add: serve_v2_list [OF q(1,2)] response_of_def)
qed

lemma findByIdAndUpdate_None: "findByIdAndUpdate i s cs = None \<longleftrightarrow> i \<notin> oid ` set cs"
  by (induction cs) (auto split: option.splits)

lemma findByIdAndUpdate_Some:
  "findByIdAndUpdate i s cs = Some (d, ds) \<Longrightarrow>
     \<exists>pre c post. cs = pre @ c # post \<and> oid c = i \<and> i \<notin> oid ` set pre
        \<and> d = c\<lparr>status := s\<rparr> \<and> ds = pre @ c\<lparr>status := s\<rparr> # post"
proof (induction cs arbitrary: d ds)
  case Nil
  then show ?case by simp
next
  case (Cons a cs)
  show ?case
  proof (cases "oid a = i")
    case True
    with Cons.prems have "a # cs = [] @ a # cs \<and> oid a = i \<and> i \<notin> oid ` set []
        \<and> d = a\<lparr>status := s\<rparr> \<and> ds = [] @ a\<lparr>status := s\<rparr> # cs"
      by auto
    then show ?thesis by blast
  next
    case False
    with Cons.prems obtain ds' where r: "findByIdAndUpdate i s cs = Some (d, ds')" "ds = a # ds'"
      by (auto split: option.splits)
    from Cons.IH [OF r(1)] obtain pre c post where
      "cs = pre @ c # post" "oid c = i" "i \<notin> oid ` set pre" "d = c\<lparr>status := s\<rparr>"
      "ds' = pre @ c\<lparr>status := s\<rparr> # post"
      by blast
    with False r(2) have "a # cs = (a # pre) @ c # post \<and> oid c = i \<and> i \<notin> oid ` set (a # pre)
        \<and> d = c\<lparr>status := s\<rparr> \<and> ds = (a # pre) @ c\<lparr>status := s\<rparr> # post"
      by auto
    then show ?thesis by blast
  qed
qed

lemma serve_v2_patch:
  assumes "req_method rq = PATCH" and "req_path rq = ''/api/contacts/'' @ i"
    and "i \<noteq> []" and "CHR ''/'' \<notin> set i"
  shows "serve_v2 e rq sv =
     (if admits limiter_v2 (general_hits sv) e rq
      then (fst (patch_contact e i rq (counted_general limiter_v2 e rq sv)),
            snd (patch_contact e i rq (counted_general limiter_v2 e rq sv)),
            [Limiter_v2, PatchContact_v2])
      else (too_many limiter_v2, counted_general limiter_v2 e rq sv, [Limiter_v2]))"
  using assms
  by (simp add: serve_v2_def app_v2_def limit_general_eq method_matches_def answer_def param_id_def)

lemma patch_fields [simp]:
  "req_method (patch i st) = PATCH" "req_path (patch i st) = ''/api/contacts/'' @ i"
  "body_status (req_body (patch i st)) = st"
  by (simp_all add: patch_def)

lemma admits_server1 [simp]: "admits limiter_v2 (general_hits server1) e rq"
  by (simp add: server1_def server0_def admits_def rateLimit_def limiter_v2_def)

lemma server1_store [simp]: "store server1 = [stored_ann]"
  by (simp add: server1_def)

lemma oid_stored_ann [simp]: "oid stored_ann = ''65f0a1b2c3d4e5f6a7b8c9d0''"
  by (simp add: stored_ann_def contact_of_def new_Contact_def env0_def)

text \<open>
  Claim C9 says that an update on an id that matches no record returns 404.  The handler
  checks the status value before it looks the id up: with the status \<^verbatim>\<open>"bogus"\<close> the
  answer is 400 although no record has the id.
\<close>

theorem C9_counterexample:
  "store server0 = []
   \<and> body_status (req_body (patch ''65f0a1b2c3d4e5f6a7b8c9d0'' (Some ''bogus''))) = Some ''bogus''
   \<and> status_code (response_of
        (serve_v2 env0 (patch ''65f0a1b2c3d4e5f6a7b8c9d0'' (Some ''bogus'')) server0)) = 400"
  by (simp add: serve_v2_patch [where i = "''65f0a1b2c3d4e5f6a7b8c9d0''"] patch_def response_of_def
      patch_contact_def parse_status_def)

text \<open>
  Claim C9, amended.  An update with a status outside unread, read, replied returns 400 and
  leaves the store as it is, whatever the id.  With one of the three values, and when the
  database does not reject the call: an id that matches no record returns 404 and leaves the
  store as it is; otherwise the first (the only) record with that id gets the new status,
  every other record and every other field stay as they are, and the answer carries the
  updated record.
\<close>

theorem C9_update_status:
  assumes "req_method rq = PATCH" and "req_path rq = ''/api/contacts/'' @ i"
    and "i \<noteq> []" and "CHR ''/'' \<notin> set i"
    and "admits limiter_v2 (general_hits sv) e rq"
  shows "(body_status (req_body rq) \<notin> {Some ''unread'', Some ''read'', Some ''replied''} \<longrightarrow>
            status_code (response_of (serve_v2 e rq sv)) = 400
          \<and> store (server_of (serve_v2 e rq sv)) = store sv)
       \<and> (\<forall>st. body_status (req_body rq) = Some (status_name st) \<and> \<not> store_fails e \<longrightarrow>
            (i \<notin> oid ` set (store sv) \<longrightarrow>
               status_code (response_of (serve_v2 e rq sv)) = 404
             \<and> store (server_of (serve_v2 e rq sv)) = store sv)
          \<and> (i \<in> oid ` set (store sv) \<longrightarrow>
               (\<exists>pre c post. store sv = pre @ c # post \<and> oid c = i \<and> i \<notin> oid ` set pre
                  \<and> store (server_of (serve_v2 e rq sv)) = pre @ c\<lparr>status := st\<rparr> # post
                  \<and> response_of (serve_v2 e rq sv) =
                      \<lparr>status_code = 200,
                       payload = JObj [(''success'', JBool True),
                         (''data'', JObj (toJSON (c\<lparr>status := st\<rparr>)))]\<rparr>)))"
proof -
  let ?sv = "counted_general limiter_v2 e rq sv"
  have r: "response_of (serve_v2 e rq sv) = fst (patch_contact e i rq ?sv)"
    "server_of (serve_v2 e rq sv) = snd (patch_contact e i rq ?sv)"
    using assms(5) by (simp_all add: serve_v2_patch [OF assms(1-4)] response_of_def server_of_def)
  have bad: "status_code (response_of (serve_v2 e rq sv)) = 400
      \<and> store (server_of (serve_v2 e rq sv)) = store sv"
    if "body_status (req_body rq) \<notin> {Some ''unread'', Some ''read'', Some ''replied''}"
    using that by (simp add: r patch_contact_def parse_status_def)
  have ok: "(i \<notin> oid ` set (store sv) \<longrightarrow>
               status_code (response_of (serve_v2 e rq sv)) = 404
             \<and> store (server_of (serve_v2 e rq sv)) = store sv)
          \<and> (i \<in> oid ` set (store sv) \<longrightarrow>
               (\<exists>pre c post. store sv = pre @ c # post \<and> oid c = i \<and> i \<notin> oid ` set pre
                  \<and> store (server_of (serve_v2 e rq sv)) = pre @ c\<lparr>status := st\<rparr> # post
                  \<and> response_of (serve_v2 e rq sv) =
                      \<lparr>status_code = 200,
                       payload = JObj [(''success'', JBool True),
                         (''data'', JObj (toJSON (c\<lparr>status := st\<rparr>)))]\<rparr>))"
    if st: "body_status (req_body rq) = Some (status_name st)" and up: "\<not> store_fails e" for st
  proof -
    have p: "parse_status (body_status (req_body rq)) = Some st"
      by (cases st) (simp_all add: st parse_status_def status_name_def)
    show ?thesis
    proof (cases "findByIdAndUpdate i st (store sv)")
      case None
      then have "i \<notin> oid ` set (store sv)" by (simp add: findByIdAndUpdate_None)
      with None p up show ?thesis by (simp add: r patch_contact_def)
    next
      case (Some x)
      then obtain d ds where f: "findByIdAndUpdate i st (store sv) = Some (d, ds)" by (cases x) simp
      then have "i \<in> oid ` set (store sv)"
        using findByIdAndUpdate_None [of i st "store sv"] by simp
      moreover from findByIdAndUpdate_Some [OF f] obtain pre c post where
        "store sv = pre @ c # post" "oid c = i" "i \<notin> oid ` set pre" "d = c\<lparr>status := st\<rparr>"
        "ds = pre @ c\<lparr>status := st\<rparr> # post"
        by blast
      ultimately show ?thesis using f p up by (simp add: r patch_contact_def) blast
    qed
  qed
  from bad ok show ?thesis by blast
qed

theorem C9_update_status_witness:
  "req_method (patch ''65f0a1b2c3d4e5f6a7b8c9d0'' (Some ''read'')) = PATCH
   \<and> req_path (patch ''65f0a1b2c3d4e5f6a7b8c9d0'' (Some ''read'')) =
       ''/api/contacts/'' @ ''65f0a1b2c3d4e5f6a7b8c9d0''
   \<and> CHR ''/'' \<notin> set ''65f0a1b2c3d4e5f6a7b8c9d0''
   \<and> admits limiter_v2 (general_hits server1) env0 (patch ''65f0a1b2c3d4e5f6a7b8c9d0'' (Some ''read''))
   \<and> body_status (req_body (patch ''65f0a1b2c3d4e5f6a7b8c9d0'' (Some ''read''))) = Some (status_name Read)
   \<and> \<not> store_fails env0
   \<and> ''65f0a1b2c3d4e5f6a7b8c9d0'' \<in> oid ` set (store server1)
   \<and> store (server_of (serve_v2 env0 (patch ''65f0a1b2c3d4e5f6a7b8c9d0'' (Some ''read'')) server1)) =
       [stored_ann\<lparr>status := Read\<rparr>]
   \<and> response_of (serve_v2 env0 (patch ''65f0a1b2c3d4e5f6a7b8c9d0'' (Some ''read'')) server1) =
       \<lparr>status_code = 200,
        payload = JObj [(''success'', JBool True), (''data'', JObj (toJSON (stored_ann\<lparr>status := Read\<rparr>)))]\<rparr>
   \<and> ''0123456789abcdef01234567'' \<notin> oid ` set (store server1)
   \<and> status_code (response_of (serve_v2 env0 (patch ''0123456789abcdef01234567'' (Some ''read'')) server1)) = 404
   \<and> store (server_of (serve_v2 env0 (patch ''0123456789abcdef01234567'' (Some ''read'')) server1)) =
       [stored_ann]
   \<and> body_status (req_body (patch ''65f0a1b2c3d4e5f6a7b8c9d0'' (Some ''bogus'')))
        \<notin> {Some ''unread'', Some ''read'', Some ''replied''}
   \<and> status_code (response_of (serve_v2 env0 (patch ''65f0a1b2c3d4e5f6a7b8c9d0'' (Some ''bogus'')) server1)) = 400
   \<and> store (server_of (serve_v2 env0 (patch ''65f0a1b2c3d4e5f6a7b8c9d0'' (Some ''bogus'')) server1)) =
       [stored_ann]"
proof -
  have r: "Some ''read'' = Some (status_name Read)" by (simp add: status_name_def)
  have found: "store (server_of (serve_v2 env0 (patch ''65f0a1b2c3d4e5f6a7b8c9d0'' (Some ''read'')) server1)) =
       [stored_ann\<lparr>status := Read\<rparr>]
     \<and> response_of (serve_v2 env0 (patch ''65f0a1b2c3d4e5f6a7b8c9d0'' (Some ''read'')) server1) =
       \<lparr>status_code = 200,
        payload = JObj [(''success'', JBool True), (''data'', JObj (toJSON (stored_ann\<lparr>status := Read\<rparr>)))]\<rparr>"
    using C9_update_status [of "patch ''65f0a1b2c3d4e5f6a7b8c9d0'' (Some ''read'')"
        "''65f0a1b2c3d4e5f6a7b8c9d0''" server1 env0]
    by (auto simp: r Cons_eq_append_conv simp del: status_name_def)
  have missing: "status_code (response_of (serve_v2 env0 (patch ''0123456789abcdef01234567'' (Some ''read'')) server1)) = 404
     \<and> store (server_of (serve_v2 env0 (patch ''0123456789abcdef01234567'' (Some ''read'')) server1)) =
       [stored_ann]"
    using C9_update_status [of "patch ''0123456789abcdef01234567'' (Some ''read'')"
        "''0123456789abcdef01234567''" server1 env0]
    by (auto simp: r)
  have bogus: "status_code (response_of (serve_v2 env0 (patch ''65f0a1b2c3d4e5f6a7b8c9d0'' (Some ''bogus'')) server1)) = 400
     \<and> store (server_of (serve_v2 env0 (patch ''65f0a1b2c3d4e5f6a7b8c9d0'' (Some ''bogus'')) server1)) =
       [stored_ann]"
    using C9_update_status [of "patch ''65f0a1b2c3d4e5f6a7b8c9d0'' (Some ''bogus'')"
        "''65f0a1b2c3d4e5f6a7b8c9d0''" server1 env0]
    by simp
  from found missing bogus show ?thesis by (simp add: status_name_def)
qed

section \<open>The order of the routes in the first variant\<close>

lemma serve_v1_entered: "set (entered (serve_v1 e rq sv)) \<subseteq>
    {Limiter_v1, ContactLimiter_v1, ValidateContactInput_v1, Contact_v1, Health_v1, NotFound_v1}"
  by (auto simp: serve_v1_def app_v1_def entered_def limit_general_eq limit_contact_eq answer_def
      split: option.splits prod.splits if_splits)

text \<open>What the handler of the route would do, were it entered: send the test message.\<close>

lemma test_email_handler_sends:
  "calls (snd (run_handler TestEmail_v1 e rq sv)) = calls sv @ [SendMail (test_mail e)]"
  by (simp add: answer_def test_email_handler_def sendMail_def split: option.splits)

lemma serve_v1_test_email:
  assumes "req_path rq = ''/api/test-email''"
  shows "serve_v1 e rq sv =
     (if admits limiter_v1 (general_hits sv) e rq
      then (not_found, counted_general limiter_v1 e rq sv, [Limiter_v1, NotFound_v1])
      else (too_many limiter_v1, counted_general limiter_v1 e rq sv, [Limiter_v1]))"
  using assms
  by (simp add: serve_v1_def app_v1_def limit_general_eq)

text \<open>
  Claim C10.  In the first variant the catch-all is registered before the route
  \<^verbatim>\<open>GET /api/test-email\<close>: no request ever enters the handler of that route, and a
  request to that path (which the general limiter lets through) gets the 404 answer
  \<^verbatim>\<open>{success: false, message: "Route not found"}\<close>, without any mail being sent.
\<close>

theorem C10_test_email_unreachable:
  "TestEmail_v1 \<notin> set (entered (serve_v1 e rq sv))
   \<and> (req_path rq = ''/api/test-email'' \<and> admits limiter_v1 (general_hits sv) e rq \<longrightarrow>
        response_of (serve_v1 e rq sv) =
          \<lparr>status_code = 404,
           payload = JObj [(''success'', JBool False), (''message'', JStr ''Route not found'')]\<rparr>
        \<and> calls (server_of (serve_v1 e rq sv)) = calls sv)"
proof -
  have "TestEmail_v1 \<notin> set (entered (serve_v1 e rq sv))"
    using serve_v1_entered [of e rq sv] by auto
  then show ?thesis
    by (auto simp: serve_v1_test_email response_of_def server_of_def not_found_def fail_json_def)
qed

theorem C10_test_email_unreachable_witness:
  "req_path get_test_email = ''/api/test-email''
   \<and> admits limiter_v1 (general_hits server0) env0 get_test_email
   \<and> TestEmail_v1 \<notin> set (entered (serve_v1 env0 get_test_email server0))
   \<and> response_of (serve_v1 env0 get_test_email server0) =
        \<lparr>status_code = 404,
         payload = JObj [(''success'', JBool False), (''message'', JStr ''Route not found'')]\<rparr>
   \<and> calls (server_of (serve_v1 env0 get_test_email server0)) = []"
  using C10_test_email_unreachable [of env0 get_test_email server0]
  by (simp add: get_test_email_def)

end
